theory Spec2Isabelle
  imports Main "HOL-Library.Sublist"
begin

section \<open>The speaker service of \<^verbatim>\<open>src/services/speaker/base.ts\<close>\<close>

text \<open>
  A shallow embedding of the class \<^verbatim>\<open>BaseSpeaker\<close>: the object's fields are a record, the
  two device handles (\<^verbatim>\<open>MiNA\<close>, \<^verbatim>\<open>MiIOT\<close>) are a trace of the calls made on them, every
  \<^verbatim>\<open>await\<close> on a device call is a step that either returns or throws, and the two loops
  (the stream loop of \<^verbatim>\<open>response\<close> and the polling loop of \<^verbatim>\<open>play\<close>) are recursive functions
  over the finite script of what the device and the stream answer. The logger is left
  out: it talks to no device and no value depends on it.
\<close>

subsection \<open>JavaScript values and strings\<close>

text \<open>
  The values read from the device are of type \<^verbatim>\<open>any\<close>; the code only tests them for
  truthiness and with \<^verbatim>\<open>===\<close> against a number.
\<close>

datatype jsval = JUndefined | JNum int | JStr string | JBool bool

fun truthy :: "jsval \<Rightarrow> bool" where
  "truthy JUndefined = False"
| "truthy (JNum n) = (n \<noteq> 0)"
| "truthy (JStr s) = (s \<noteq> [])"
| "truthy (JBool b) = b"

text \<open>\<^verbatim>\<open>!!s\<close> for an optional string: \<^verbatim>\<open>undefined\<close> and \<^verbatim>\<open>""\<close> are falsy.\<close>

fun truthy_str :: "string option \<Rightarrow> bool" where
  "truthy_str None = False"
| "truthy_str (Some s) = (s \<noteq> [])"

text \<open>
  A string is the UTF-8 encoding of the JavaScript string (a well-formed one, with no
  lone surrogate). White space as \<^verbatim>\<open>\s\<close> and \<^verbatim>\<open>trim()\<close> read it: tab, line feed, vertical
  tab, form feed, carriage return, space, U+00A0, U+1680, U+2000 to U+200A, U+2028,
  U+2029, U+202F, U+205F, U+3000 and U+FEFF, each as its bytes. In well-formed UTF-8 the
  bytes of one character never occur across other characters, so matching the bytes
  matches the character.
\<close>

definition white_space :: "string list" where
  "white_space =
     map (\<lambda>c. [c]) [CHR 0x09, CHR 0x0A, CHR 0x0B, CHR 0x0C, CHR 0x0D, CHR 0x20]
     @ [[CHR 0xC2, CHR 0xA0], [CHR 0xE1, CHR 0x9A, CHR 0x80]]
     @ map (\<lambda>c. [CHR 0xE2, CHR 0x80, c])
         [CHR 0x80, CHR 0x81, CHR 0x82, CHR 0x83, CHR 0x84, CHR 0x85, CHR 0x86, CHR 0x87,
          CHR 0x88, CHR 0x89, CHR 0x8A, CHR 0xA8, CHR 0xA9, CHR 0xAF]
     @ [[CHR 0xE2, CHR 0x81, CHR 0x9F], [CHR 0xE3, CHR 0x80, CHR 0x80],
        [CHR 0xEF, CHR 0xBB, CHR 0xBF]]"

text \<open>
  The number of bytes of the white-space character the string starts with, 0 when it
  starts with none; \<open>ws\<close> is the list of white-space characters.
\<close>

definition space_length :: "string list \<Rightarrow> string \<Rightarrow> nat" where
  "space_length ws s = (case find (\<lambda>w. prefix w s) ws of None \<Rightarrow> 0 | Some w \<Rightarrow> length w)"

fun trim_start :: "string list \<Rightarrow> string \<Rightarrow> string" where
  "trim_start ws [] = []"
| "trim_start ws (c # cs) =
     (if space_length ws (c # cs) = 0 then c # cs
      else trim_start ws (drop (space_length ws (c # cs) - 1) cs))"

text \<open>\<^verbatim>\<open>trim()\<close>: the white space at the start goes, then, read backwards, that at the end.\<close>

definition trim :: "string \<Rightarrow> string" where
  "trim s = rev (trim_start (map rev white_space) (rev (trim_start white_space s)))"

text \<open>The number of bytes of the longest run of white space the string starts with.\<close>

fun space_run :: "string \<Rightarrow> nat" where
  "space_run [] = 0"
| "space_run (c # cs) =
     (if space_length white_space (c # cs) = 0 then 0
      else space_length white_space (c # cs)
           + space_run (drop (space_length white_space (c # cs) - 1) cs))"

text \<open>
  \<^verbatim>\<open>text.replace(/\n\s*\n/g, "\n")\<close>: at a line feed, \<^verbatim>\<open>\s*\<close> takes the whole run of
  white space that follows and backs off to the last line feed of that run; the match
  (from the first line feed to that last one) becomes one line feed and the scan goes on
  behind it. A line feed whose run holds no further line feed is copied. \<open>blank_run\<close> is
  the number of bytes from behind the first line feed to the last one of the run.
\<close>

definition blank_run :: "string \<Rightarrow> nat" where
  "blank_run cs = length (dropWhile (\<lambda>c. c \<noteq> CHR 0x0A) (rev (take (space_run cs) cs)))"

fun collapse_blank_lines :: "string \<Rightarrow> string" where
  "collapse_blank_lines [] = []"
| "collapse_blank_lines (c # cs) =
     (if c = CHR 0x0A \<and> 0 < blank_run cs
      then CHR 0x0A # collapse_blank_lines (drop (blank_run cs) cs)
      else c # collapse_blank_lines cs)"

text \<open>\<^verbatim>\<open>text?.replace(/\n\s*\n/g, "\n")?.trim()\<close> (line 236), on a defined text.\<close>

definition normalize :: "string \<Rightarrow> string" where
  "normalize s = trim (collapse_blank_lines s)"

text \<open>
  \<^verbatim>\<open>encodeURIComponent\<close>: the unreserved characters stay, every other byte of the UTF-8
  text becomes \<^verbatim>\<open>%XX\<close> in upper-case hexadecimal.
\<close>

definition unreserved :: "char \<Rightarrow> bool" where
  "unreserved c = (c \<in> set (''ABCDEFGHIJKLMNOPQRSTUVWXYZabcdefghijklmnopqrstuvwxyz''
                            @ ''0123456789-_.!~*()'' @ [CHR 0x27]))"

definition hex_digit :: "nat \<Rightarrow> char" where
  "hex_digit n = ''0123456789ABCDEF'' ! (n mod 16)"

definition percent_encode :: "char \<Rightarrow> string" where
  "percent_encode c =
     (if unreserved c then [c]
      else [CHR ''%'', hex_digit (of_char c div 16), hex_digit (of_char c mod 16)])"

definition encodeURIComponent :: "string \<Rightarrow> string" where
  "encodeURIComponent s = concat (map percent_encode s)"

text \<open>A template literal prints an undefined value as the word \<^verbatim>\<open>undefined\<close>.\<close>

fun template_str :: "string option \<Rightarrow> string" where
  "template_str None = ''undefined''"
| "template_str (Some s) = s"

subsection \<open>The data of the class\<close>

datatype TTSProvider = xiaoai | doubao

datatype Gender = Male | Female

record Speaker =
  name :: string
  gender :: Gender
  speaker :: string

text \<open>
  The fields of \<^verbatim>\<open>BaseSpeaker\<close> (lines 64 to 74, 111, 112, 325, 326). An action command
  is a pair of numbers, a property command a triple whose third number is the value that
  means playing. \<^verbatim>\<open>debug\<close> only switches logging on.
\<close>

record BaseSpeaker =
  debug :: bool
  checkInterval :: nat
  tts :: TTSProvider
  ttsCommand :: "nat \<times> nat"
  wakeUpCommand :: "nat \<times> nat"
  playingCommand :: "(nat \<times> nat \<times> int) option"
  audioBeep :: "string option"
  responding :: bool
  doubaoSpeakers :: "Speaker list option"
  defaultSpeaker :: string

text \<open>\<^verbatim>\<open>process.env\<close>, the two variables the class reads.\<close>

record ProcessEnv =
  TTS_DOUBAO :: "string option"
  SPEAKERS_DOUBAO :: "string option"

text \<open>
  Modelled from the spec: the class \<^verbatim>\<open>StreamResponse\<close> of \<^verbatim>\<open>./stream\<close> is not among the
  sources. A cursor owns an ordered, finite sequence of answers to \<^verbatim>\<open>getNextResponse()\<close>,
  each a pair of a next sentence (absent when none is ready) and the flag \<^verbatim>\<open>noMore\<close>, and
  a cancellation flag; once cancelled it reports no sentence and no more. An answer the
  script does not hold is an answer that has not come yet.
\<close>

record pull =
  nextSentence :: "string option"
  noMore :: bool

record StreamResponse =
  pending :: "pull list"
  cancelled :: bool

definition getNextResponse :: "StreamResponse \<Rightarrow> (pull \<times> StreamResponse) option" where
  "getNextResponse s =
     (if cancelled s then Some (\<lparr>nextSentence = None, noMore = True\<rparr>, s)
      else case pending s of
             [] \<Rightarrow> None
           | p # ps \<Rightarrow> Some (p, s\<lparr>pending := ps\<rparr>))"

definition cancel :: "StreamResponse \<Rightarrow> StreamResponse" where
  "cancel s = s\<lparr>cancelled := True\<rparr>"

text \<open>
  The options object of \<^verbatim>\<open>response\<close> and \<^verbatim>\<open>_response\<close> (lines 121 to 130): every member
  is optional. The member \<^verbatim>\<open>stream\<close> is a reference; the record holds the state of the
  cursor when the call starts, and only its presence is read from the options. The
  member \<^verbatim>\<open>hasNewMsg\<close> is either the default of \<^verbatim>\<open>checkIfHasNewMsg()\<close> (line 119), which
  always answers false, or a function of the caller, whose answers come from outside.
\<close>

datatype callback = Default_hasNewMsg | Caller_hasNewMsg

record options =
  opt_tts :: "TTSProvider option"
  opt_text :: "string option"
  opt_stream :: "StreamResponse option"
  opt_audio :: "string option"
  opt_speaker :: "string option"
  opt_keepAlive :: "bool option"
  opt_playSFX :: "bool option"
  opt_hasNewMsg :: "callback option"

subsection \<open>The device and the outside world\<close>

text \<open>
  The argument of \<^verbatim>\<open>MiNA.play\<close> and of the local function \<^verbatim>\<open>play\<close>. A play event also
  records which statement issued it: the boundary chime (lines 165, 189, 244, 294) or
  the reply itself (line 253).
\<close>

datatype play_args = Args_url "string option" | Args_tts string

datatype play_site = Beep | Reply

text \<open>What \<^verbatim>\<open>_response\<close> and \<^verbatim>\<open>response\<close> resolve to: the string \<^verbatim>\<open>"break"\<close> or \<^verbatim>\<open>undefined\<close>.\<close>

datatype play_result = Break | Undefined

text \<open>
  The trace: the calls on the device handles, the timed sleeps, the calls on the stream
  cursor (a pull with the answer it got), the catalogue fetch, the calls of the options'
  \<^verbatim>\<open>hasNewMsg\<close> (with the answer), and the entry and exit of \<^verbatim>\<open>_response\<close> (with the text it
  was given and what it resolved to).
\<close>

datatype event =
    MiNA_play play_site play_args
  | MiNA_pause
  | MiNA_getStatus
  | MiIOT_doAction nat nat "string option"
  | MiIOT_getProperty nat nat
  | Sleep nat
  | Stream_getNextResponse pull
  | Stream_cancel
  | Fetch string
  | Call_hasNewMsg bool
  | Call_response "string option"
  | Return_response play_result

fun is_device_call :: "event \<Rightarrow> bool" where
  "is_device_call (MiNA_play site args) = True"
| "is_device_call MiNA_pause = True"
| "is_device_call MiNA_getStatus = True"
| "is_device_call (MiIOT_doAction siid aiid arg) = True"
| "is_device_call (MiIOT_getProperty siid piid) = True"
| "is_device_call e = False"

text \<open>
  What one pass of the polling loop meets: the device's answer to the property read and
  to the status read, the answer of the caller's \<^verbatim>\<open>hasNewMsg\<close>, and what another session
  wrote to \<^verbatim>\<open>this.responding\<close> while this one was suspended (nothing, most of the time).
\<close>

record status_reply =
  st_status :: "string option"
  st_media_type :: jsval

record tick =
  prop_reply :: jsval
  status_reply :: "status_reply option"
  new_msg :: bool
  flag_write :: "bool option"

datatype fetch_result = Fetch_failed | Json_other | Json_array "Speaker list"

text \<open>
  The world: the object, the environment, and the script of the outside. \<^verbatim>\<open>fault n\<close>
  says that the device call issued when the trace holds \<open>n\<close> events throws.
  \<^verbatim>\<open>createStreamResponse\<close> (of \<^verbatim>\<open>./stream\<close>) and \<^verbatim>\<open>kAreYouOK\<close> (of \<^verbatim>\<open>utils/string\<close>) are
  not among the sources and are parameters.
\<close>

record world =
  self :: BaseSpeaker
  env :: ProcessEnv
  createStreamResponse :: "string \<Rightarrow> StreamResponse"
  kAreYouOK :: string
  fetch_json :: fetch_result
  fault :: "nat \<Rightarrow> bool"
  ticks :: "tick list"
  trace :: "event list"

text \<open>
  How an awaited computation ends: it returns, it throws, or the script of the outside
  is used up before it has ended (it is still waiting).
\<close>

datatype 'a completion = Returned 'a | Thrown | Pending

text \<open>
  \<open>emit\<close> writes an event to the trace. \<open>device\<close> is an awaited call on a device handle:
  the call is traced whether it returns or throws.
\<close>

definition emit :: "event \<Rightarrow> world \<Rightarrow> world" where
  "emit e w = w\<lparr>trace := trace w @ [e]\<rparr>"

definition device :: "event \<Rightarrow> world \<Rightarrow> unit completion \<times> world" where
  "device e w = (if fault w (length (trace w)) then Thrown else Returned (), emit e w)"

definition skip :: "world \<Rightarrow> unit completion \<times> world" where
  "skip w = (Returned (), w)"

definition sleep :: "nat \<Rightarrow> world \<Rightarrow> unit completion \<times> world" where
  "sleep ms w = (Returned (), emit (Sleep ms) w)"

text \<open>One statement after another: what follows an \<^verbatim>\<open>await\<close> runs only if it returned.\<close>

definition then_do ::
  "(world \<Rightarrow> unit completion \<times> world) \<Rightarrow> (world \<Rightarrow> 'a completion \<times> world) \<Rightarrow>
   world \<Rightarrow> 'a completion \<times> world" where
  "then_do m k w =
     (case m w of
        (Returned u, w') \<Rightarrow> k w'
      | (Thrown, w') \<Rightarrow> (Thrown, w')
      | (Pending, w') \<Rightarrow> (Pending, w'))"

subsection \<open>Waking and unwaking (lines 101 to 109)\<close>

definition wakeUp :: "world \<Rightarrow> unit completion \<times> world" where
  "wakeUp w =
     device (MiIOT_doAction (fst (wakeUpCommand (self w))) (snd (wakeUpCommand (self w))) None) w"

definition unWakeUp :: "world \<Rightarrow> unit completion \<times> world" where
  "unWakeUp =
     then_do (device MiNA_pause)
       (\<lambda>w. device (MiIOT_doAction (fst (ttsCommand (self w))) (snd (ttsCommand (self w)))
                      (Some (kAreYouOK w))) w)"

text \<open>The boundary chime: \<^verbatim>\<open>MiNA.play({ url: this.audioBeep })\<close>.\<close>

definition beep :: "world \<Rightarrow> unit completion \<times> world" where
  "beep w = device (MiNA_play Beep (Args_url (audioBeep (self w)))) w"

subsection \<open>The polling loop of \<^verbatim>\<open>play\<close> (lines 259 to 291)\<close>

record playing =
  status :: string
  media_type :: jsval

definition idle :: playing where
  "idle = \<lparr>status = ''idle'', media_type = JUndefined\<rparr>"

text \<open>
  Lines 260 to 278: with a property command the state is playing exactly when the value
  read is the configured one; without it the status read is spread over the idle state.
\<close>

definition derive_playing :: "BaseSpeaker \<Rightarrow> tick \<Rightarrow> playing" where
  "derive_playing spk t =
     (case playingCommand spk of
        Some (siid, piid, v) \<Rightarrow>
          if prop_reply t = JNum v then \<lparr>status = ''playing'', media_type = JUndefined\<rparr>
          else idle
      | None \<Rightarrow>
          (case status_reply t of
             None \<Rightarrow> idle
           | Some r \<Rightarrow>
               \<lparr>status = (case st_status r of None \<Rightarrow> ''idle'' | Some s \<Rightarrow> s),
                media_type = st_media_type r\<rparr>))"

definition poll_event :: "BaseSpeaker \<Rightarrow> event" where
  "poll_event spk =
     (case playingCommand spk of
        Some (siid, piid, v) \<Rightarrow> MiIOT_getProperty siid piid
      | None \<Rightarrow> MiNA_getStatus)"

text \<open>
  The local function \<^verbatim>\<open>hasNewMsg\<close> (lines 228 to 234): it calls \<^verbatim>\<open>options.hasNewMsg?.()\<close>
  and hands the answer on, undefined, hence falsy, without the member. \<open>call_hasNewMsg\<close>
  is the answer, \<open>asked\<close> the call as the trace shows it, \<open>consult\<close> the world after it.
\<close>

definition call_hasNewMsg :: "options \<Rightarrow> tick \<Rightarrow> bool" where
  "call_hasNewMsg opts t =
     (case opt_hasNewMsg opts of
        None \<Rightarrow> False
      | Some Default_hasNewMsg \<Rightarrow> False
      | Some Caller_hasNewMsg \<Rightarrow> new_msg t)"

definition asked :: "options \<Rightarrow> tick \<Rightarrow> event list" where
  "asked opts t =
     (case opt_hasNewMsg opts of
        None \<Rightarrow> []
      | Some f \<Rightarrow> [Call_hasNewMsg (call_hasNewMsg opts t)])"

definition consult :: "options \<Rightarrow> tick \<Rightarrow> world \<Rightarrow> world" where
  "consult opts t w = w\<lparr>trace := trace w @ asked opts t\<rparr>"

text \<open>
  The condition of lines 279 to 283, \<^verbatim>\<open>hasNewMsg() || !this.responding || (...)\<close>, with
  the disjunct that decided it: \<^verbatim>\<open>||\<close> evaluates from the left and stops at the first
  disjunct that holds.
\<close>

datatype cause = Caller_check | Flag_cleared | Device_media

definition interruption :: "bool \<Rightarrow> bool \<Rightarrow> playing \<Rightarrow> cause option" where
  "interruption has_new is_responding p =
     (if has_new then Some Caller_check
      else if \<not> is_responding then Some Flag_cleared
      else if status p = ''playing'' \<and> truthy (media_type p) then Some Device_media
      else None)"

text \<open>How the loop is left: by \<^verbatim>\<open>return "break"\<close> (line 285) or by \<^verbatim>\<open>break\<close> (line 288).\<close>

datatype wait_exit = Return_break | Loop_done

definition land :: "tick \<Rightarrow> tick list \<Rightarrow> world \<Rightarrow> world" where
  "land t ts w =
     w\<lparr>ticks := ts,
       self := (case flag_write t of
                  None \<Rightarrow> self w
                | Some b \<Rightarrow> (self w)\<lparr>responding := b\<rparr>)\<rparr>"

text \<open>
  One pass: the device is polled, \<^verbatim>\<open>hasNewMsg()\<close> is called, first in the chain of \<^verbatim>\<open>||\<close>,
  and the condition decides; the flag and the state of the device are only read.
\<close>

fun wait_playing :: "options \<Rightarrow> tick list \<Rightarrow> world \<Rightarrow> wait_exit completion \<times> world" where
  "wait_playing opts [] w = (Pending, w)"
| "wait_playing opts (t # ts) w =
     (case device (poll_event (self w)) (land t ts w) of
        (Returned u, w0) \<Rightarrow>
          if interruption (call_hasNewMsg opts t) (responding (self w0))
               (derive_playing (self w0) t) \<noteq> None
          then (Returned Return_break, consult opts t w0)
          else if status (derive_playing (self w0) t) \<noteq> ''playing''
          then (Returned Loop_done, consult opts t w0)
          else wait_playing opts ts
                 (emit (Sleep (checkInterval (self w0))) (consult opts t w0))
      | (Thrown, w0) \<Rightarrow> (Thrown, w0)
      | (Pending, w0) \<Rightarrow> (Pending, w0))"

subsection \<open>Reading the options (lines 131 to 152 and 218 to 238)\<close>

text \<open>The defaults of the destructuring: \<^verbatim>\<open>playSFX = true\<close>, \<^verbatim>\<open>keepAlive = false\<close>, \<^verbatim>\<open>tts = this.tts\<close>.\<close>

definition chime_requested :: "options \<Rightarrow> bool" where
  "chime_requested opts = (case opt_playSFX opts of None \<Rightarrow> True | Some b \<Rightarrow> b)"

definition keep_alive :: "options \<Rightarrow> bool" where
  "keep_alive opts = (case opt_keepAlive opts of None \<Rightarrow> False | Some b \<Rightarrow> b)"

definition requested_tts :: "options \<Rightarrow> world \<Rightarrow> TTSProvider" where
  "requested_tts opts w = (case opt_tts opts of None \<Rightarrow> tts (self w) | Some p \<Rightarrow> p)"

text \<open>Line 139: \<^verbatim>\<open>options.hasNewMsg ??= this.checkIfHasNewMsg().hasNewMsg\<close>.\<close>

definition with_default_check :: "options \<Rightarrow> options" where
  "with_default_check opts =
     opts\<lparr>opt_hasNewMsg :=
            (case opt_hasNewMsg opts of
               None \<Rightarrow> Some Default_hasNewMsg
             | Some f \<Rightarrow> Some f)\<rparr>"

text \<open>Lines 141 to 144: the local \<^verbatim>\<open>tts\<close> of \<^verbatim>\<open>response\<close> once the endpoint has been looked at.\<close>

definition effective_tts :: "options \<Rightarrow> world \<Rightarrow> TTSProvider" where
  "effective_tts opts w =
     (if \<not> truthy_str (TTS_DOUBAO (env w)) then xiaoai else requested_tts opts w)"

text \<open>Line 146, \<^verbatim>\<open>ttsNotXiaoai\<close>, and line 147, \<^verbatim>\<open>playSFX\<close>, of \<^verbatim>\<open>response\<close>.\<close>

definition tts_not_xiaoai :: "options \<Rightarrow> world \<Rightarrow> bool" where
  "tts_not_xiaoai opts w =
     ((opt_stream opts \<noteq> None \<or> truthy_str (opt_text opts)) \<and> \<not> truthy_str (opt_audio opts)
      \<and> effective_tts opts w \<noteq> xiaoai)"

definition chime_enabled :: "options \<Rightarrow> world \<Rightarrow> bool" where
  "chime_enabled opts w = (tts_not_xiaoai opts w \<and> chime_requested opts)"

text \<open>Lines 149 to 152: the stream the loop runs on, built from the text where there is none.\<close>

definition session_stream :: "options \<Rightarrow> world \<Rightarrow> StreamResponse option" where
  "session_stream opts w =
     (if tts_not_xiaoai opts w \<and> opt_stream opts = None
      then Some (createStreamResponse w (the (opt_text opts)))
      else opt_stream opts)"

subsection \<open>The single dispatch, \<^verbatim>\<open>_response\<close> (lines 208 to 323)\<close>

text \<open>
  The local function \<^verbatim>\<open>play\<close> (lines 241 to 300), with the variables it closes over as
  arguments: the options, \<^verbatim>\<open>playSFX\<close>, \<^verbatim>\<open>ttsNotXiaoai\<close> and \<^verbatim>\<open>keepAlive\<close>.
\<close>

definition issue :: "play_args \<Rightarrow> world \<Rightarrow> unit completion \<times> world" where
  "issue args w =
     (case args of
        Args_tts t \<Rightarrow>
          if t \<noteq> []
          then device (MiIOT_doAction (fst (ttsCommand (self w))) (snd (ttsCommand (self w)))
                         (Some t)) w
          else device (MiNA_play Reply args) w
      | Args_url u \<Rightarrow> device (MiNA_play Reply args) w)"

definition after_playing :: "bool \<Rightarrow> bool \<Rightarrow> world \<Rightarrow> play_result completion \<times> world" where
  "after_playing playSFX keepAlive =
     then_do (\<lambda>w. if playSFX \<and> truthy_str (audioBeep (self w)) then beep w else skip w)
       (then_do (if keepAlive then wakeUp else skip)
          (\<lambda>w. (Returned Undefined, w)))"

definition await_playing ::
  "options \<Rightarrow> bool \<Rightarrow> bool \<Rightarrow> world \<Rightarrow> play_result completion \<times> world" where
  "await_playing opts playSFX keepAlive w =
     (case wait_playing opts (ticks w) w of
        (Returned Return_break, w') \<Rightarrow> (Returned Break, w')
      | (Returned Loop_done, w') \<Rightarrow> after_playing playSFX keepAlive w'
      | (Thrown, w') \<Rightarrow> (Thrown, w')
      | (Pending, w') \<Rightarrow> (Pending, w'))"

definition play ::
  "options \<Rightarrow> bool \<Rightarrow> bool \<Rightarrow> bool \<Rightarrow> play_args \<Rightarrow> world \<Rightarrow> play_result completion \<times> world"
  where
  "play opts playSFX ttsNotXiaoai keepAlive args =
     then_do (\<lambda>w. if playSFX \<and> truthy_str (audioBeep (self w)) then beep w else skip w)
       (then_do (if ttsNotXiaoai then unWakeUp else skip)
          (then_do (issue args)
             (then_do (sleep 3000)
                (await_playing opts playSFX keepAlive))))"

text \<open>
  \<^verbatim>\<open>_response\<close>: the members are read from the options it is given, the provider and the
  voice falling back to the object's (lines 218 to 226).
\<close>

definition vendor_url :: "options \<Rightarrow> world \<Rightarrow> string \<Rightarrow> string" where
  "vendor_url opts w ttsText =
     template_str (TTS_DOUBAO (env w)) @ ''?speaker=''
     @ (case opt_speaker opts of None \<Rightarrow> defaultSpeaker (self w) | Some v \<Rightarrow> v)
     @ ''&text='' @ encodeURIComponent ttsText"

definition private_response :: "options \<Rightarrow> world \<Rightarrow> play_result completion \<times> world" where
  "private_response opts w =
     (let text = opt_text opts;
          audio = opt_audio opts;
          stream = opt_stream opts;
          tts = requested_tts opts w;
          ttsText = map_option normalize text;
          ttsNotXiaoai = (stream = None \<and> truthy_str text \<and> \<not> truthy_str audio \<and> tts \<noteq> xiaoai);
          playSFX = (ttsNotXiaoai \<and> chime_requested opts)
      in if truthy_str audio
         then play opts playSFX ttsNotXiaoai (keep_alive opts) (Args_url audio) w
         else if truthy_str ttsText
         then (case tts of
                 doubao \<Rightarrow>
                   play opts playSFX ttsNotXiaoai (keep_alive opts)
                     (Args_url (Some (vendor_url opts w (the ttsText)))) w
               | xiaoai \<Rightarrow>
                   play opts playSFX ttsNotXiaoai (keep_alive opts) (Args_tts (the ttsText)) w)
         else (Returned Undefined, w))"

text \<open>The call of \<^verbatim>\<open>_response\<close> from \<^verbatim>\<open>response\<close> (lines 172 and 202), entry and exit traced.\<close>

definition call_response :: "options \<Rightarrow> world \<Rightarrow> play_result completion \<times> world" where
  "call_response opts w =
     (case private_response opts (emit (Call_response (opt_text opts)) w) of
        (Returned r, w') \<Rightarrow> (Returned r, emit (Return_response r) w')
      | (Thrown, w') \<Rightarrow> (Thrown, w')
      | (Pending, w') \<Rightarrow> (Pending, w'))"

subsection \<open>The dispatcher, \<^verbatim>\<open>response\<close> (lines 121 to 206)\<close>

text \<open>
  One pass of the stream loop up to line 184, for the answer \<open>p\<close> of the cursor. \<open>res\<close> is
  the variable \<^verbatim>\<open>res\<close>, \<open>said\<close> the variable \<^verbatim>\<open>_response\<close> that collects the sentences
  dispatched so far. The pass ends the loop by the \<^verbatim>\<open>break\<close> of line 181 or goes on with
  the new values of the two variables.
\<close>

datatype pass_exit = Stop_break | Go_on play_result string

definition chunk_options :: "options \<Rightarrow> pull \<Rightarrow> options" where
  "chunk_options opts p =
     opts\<lparr>opt_text := nextSentence p, opt_playSFX := Some False, opt_keepAlive := Some False\<rparr>"

definition dispatch_chunk ::
  "options \<Rightarrow> string \<Rightarrow> pull \<Rightarrow> world \<Rightarrow> pass_exit completion \<times> world" where
  "dispatch_chunk opts said p w =
     (case call_response (chunk_options opts p) w of
        (Returned r, w') \<Rightarrow>
          if r = Break then (Returned Stop_break, w')
          else (Returned (Go_on r (said @ the (nextSentence p))), w')
      | (Thrown, w') \<Rightarrow> (Thrown, w')
      | (Pending, w') \<Rightarrow> (Pending, w'))"

definition stream_sentence ::
  "options \<Rightarrow> bool \<Rightarrow> bool \<Rightarrow> play_result \<Rightarrow> string \<Rightarrow> pull \<Rightarrow> world \<Rightarrow>
   pass_exit completion \<times> world" where
  "stream_sentence opts playSFX ttsNotXiaoai res said p =
     (if truthy_str (nextSentence p)
      then then_do (if said = [] \<and> playSFX then beep else skip)
             (then_do (if said = [] \<and> ttsNotXiaoai then unWakeUp else skip)
                (dispatch_chunk opts said p))
      else (\<lambda>w. (Returned (Go_on res said), w)))"

text \<open>Lines 185 to 198, once the cursor has reported no more.\<close>

definition stream_end :: "bool \<Rightarrow> bool \<Rightarrow> string \<Rightarrow> world \<Rightarrow> unit completion \<times> world" where
  "stream_end playSFX keepAlive said =
     then_do (if said \<noteq> [] \<and> playSFX then beep else skip)
       (if keepAlive then wakeUp else skip)"

text \<open>
  The loop of lines 159 to 200. It returns the value of \<^verbatim>\<open>res\<close> and the cursor as the
  loop leaves it.
\<close>

function response_stream ::
  "options \<Rightarrow> bool \<Rightarrow> bool \<Rightarrow> bool \<Rightarrow> play_result \<Rightarrow> string \<Rightarrow> StreamResponse \<Rightarrow> world \<Rightarrow>
   play_result completion \<times> StreamResponse \<times> world" where
  "response_stream opts playSFX ttsNotXiaoai keepAlive res said s w =
     (case getNextResponse s of
        None \<Rightarrow> (Pending, s, w)
      | Some (p, s') \<Rightarrow>
          (case stream_sentence opts playSFX ttsNotXiaoai res said p
                  (emit (Stream_getNextResponse p) w) of
             (Returned Stop_break, w1) \<Rightarrow> (Returned Break, cancel s', emit Stream_cancel w1)
           | (Returned (Go_on res' said'), w1) \<Rightarrow>
               if noMore p
               then (case stream_end playSFX keepAlive said' w1 of
                       (Returned u, w2) \<Rightarrow> (Returned res', s', w2)
                     | (Thrown, w2) \<Rightarrow> (Thrown, s', w2)
                     | (Pending, w2) \<Rightarrow> (Pending, s', w2))
               else response_stream opts playSFX ttsNotXiaoai keepAlive res' said' s'
                      (emit (Sleep (checkInterval (self w1))) w1)
           | (Thrown, w1) \<Rightarrow> (Thrown, s', w1)
           | (Pending, w1) \<Rightarrow> (Pending, s', w1)))"
  by pat_completeness auto
termination
  by (relation "measure (\<lambda>(opts, playSFX, ttsNotXiaoai, keepAlive, res, said, s, w).
                  length (pending s))")
     (auto simp: getNextResponse_def split: if_splits list.splits)

text \<open>
  \<^verbatim>\<open>response\<close>. It returns what the call resolves to, the options object as the call
  leaves it (line 139 writes to it), the cursor as the loop leaves it, and the world.
\<close>

definition set_responding :: "bool \<Rightarrow> world \<Rightarrow> world" where
  "set_responding b w = w\<lparr>self := (self w)\<lparr>responding := b\<rparr>\<rparr>"

definition response ::
  "options \<Rightarrow> world \<Rightarrow> play_result completion \<times> options \<times> StreamResponse option \<times> world" where
  "response options0 w =
     (let opts = with_default_check options0;
          playSFX = chime_enabled options0 w;
          ttsNotXiaoai = tts_not_xiaoai options0 w;
          w1 = set_responding True w
      in case session_stream options0 w of
           Some s \<Rightarrow>
             (case response_stream opts playSFX ttsNotXiaoai (keep_alive options0)
                     Undefined [] s w1 of
                (Returned r, s', w2) \<Rightarrow> (Returned r, opts, Some s', set_responding False w2)
              | (Thrown, s', w2) \<Rightarrow> (Thrown, opts, Some s', w2)
              | (Pending, s', w2) \<Rightarrow> (Pending, opts, Some s', w2))
         | None \<Rightarrow>
             (case call_response opts w1 of
                (Returned r, w2) \<Rightarrow> (Returned r, opts, None, set_responding False w2)
              | (Thrown, w2) \<Rightarrow> (Thrown, opts, None, w2)
              | (Pending, w2) \<Rightarrow> (Pending, opts, None, w2)))"

text \<open>The four parts of what \<^verbatim>\<open>response\<close> returns.\<close>

definition outcome :: "'a \<times> 'b \<Rightarrow> 'a" where
  "outcome x = fst x"

definition options_after :: "'a \<times> options \<times> 'c \<Rightarrow> options" where
  "options_after x = fst (snd x)"

definition stream_after :: "'a \<times> 'b \<times> StreamResponse option \<times> 'd \<Rightarrow> StreamResponse option" where
  "stream_after x = fst (snd (snd x))"

definition world_after :: "'a \<times> 'b \<times> 'c \<times> world \<Rightarrow> world" where
  "world_after x = snd (snd (snd x))"

subsection \<open>Switching the default voice (lines 325 to 345)\<close>

text \<open>
  \<^verbatim>\<open>fetch_json\<close> is what \<^verbatim>\<open>(await fetch(speakersAPI)).json()\<close> does: it throws, or yields a
  value that is an array of catalogue entries or something else.
\<close>

definition load_speakers :: "world \<Rightarrow> unit completion \<times> world" where
  "load_speakers w =
     (if doubaoSpeakers (self w) = None \<and> truthy_str (SPEAKERS_DOUBAO (env w))
      then (case fetch_json w of
              Fetch_failed \<Rightarrow> (Thrown, emit (Fetch (the (SPEAKERS_DOUBAO (env w)))) w)
            | Json_other \<Rightarrow> (Returned (), emit (Fetch (the (SPEAKERS_DOUBAO (env w)))) w)
            | Json_array l \<Rightarrow>
                (Returned (),
                 (emit (Fetch (the (SPEAKERS_DOUBAO (env w)))) w)
                   \<lparr>self := (self w)\<lparr>doubaoSpeakers := Some l\<rparr>\<rparr>))
      else (Returned (), w))"

definition matches :: "string \<Rightarrow> Speaker \<Rightarrow> bool" where
  "matches v e = (name e = v \<or> speaker e = v)"

definition switchDefaultSpeaker :: "string \<Rightarrow> world \<Rightarrow> bool completion \<times> world" where
  "switchDefaultSpeaker v =
     then_do load_speakers
       (\<lambda>w. case doubaoSpeakers (self w) of
               None \<Rightarrow> (Returned False, w)
             | Some l \<Rightarrow>
                 (let target = find (matches v) l;
                      w' = (case target of
                              None \<Rightarrow> w
                            | Some e \<Rightarrow> w\<lparr>self := (self w)\<lparr>defaultSpeaker := speaker e\<rparr>\<rparr>)
                  in (Returned (Some (defaultSpeaker (self w')) = map_option speaker target), w')))"

subsection \<open>Reading a trace\<close>

text \<open>The events a call added to the trace.\<close>

definition new_events :: "world \<Rightarrow> world \<Rightarrow> event list" where
  "new_events w w' = drop (length (trace w)) (trace w')"

definition device_calls :: "event list \<Rightarrow> event list" where
  "device_calls es = filter is_device_call es"

fun is_chime :: "event \<Rightarrow> bool" where
  "is_chime (MiNA_play Beep args) = True"
| "is_chime e = False"

definition chimes :: "event list \<Rightarrow> event list" where
  "chimes es = filter is_chime es"

text \<open>The events of the dispatches: entry and exit of \<^verbatim>\<open>_response\<close>, and the cancellation.\<close>

fun is_dispatch :: "event \<Rightarrow> bool" where
  "is_dispatch (Call_response t) = True"
| "is_dispatch (Return_response r) = True"
| "is_dispatch Stream_cancel = True"
| "is_dispatch e = False"

definition dispatch_events :: "event list \<Rightarrow> event list" where
  "dispatch_events es = filter is_dispatch es"

fun call_of :: "event \<Rightarrow> string option list" where
  "call_of (Call_response t) = [t]"
| "call_of e = []"

text \<open>The texts dispatched, in the order of the trace.\<close>

definition dispatched :: "event list \<Rightarrow> string option list" where
  "dispatched es = concat (map call_of es)"

fun pull_of :: "event \<Rightarrow> pull list" where
  "pull_of (Stream_getNextResponse p) = [p]"
| "pull_of e = []"

text \<open>The answers the cursor gave, in the order of the trace.\<close>

definition pulled :: "event list \<Rightarrow> pull list" where
  "pulled es = concat (map pull_of es)"

definition has_sentence :: "pull \<Rightarrow> bool" where
  "has_sentence p = truthy_str (nextSentence p)"

text \<open>The sentences a script of answers holds, in its order.\<close>

definition sentences :: "pull list \<Rightarrow> string option list" where
  "sentences ps = map nextSentence (filter has_sentence ps)"

text \<open>
  The answers a cursor will give, in their order: those it holds, or, once cancelled, the
  one answer of no sentence and no more.
\<close>

definition script :: "StreamResponse \<Rightarrow> pull list" where
  "script s = (if cancelled s then [\<lparr>nextSentence = None, noMore = True\<rparr>] else pending s)"

text \<open>The answers up to the first that reports no more, that one included.\<close>

fun upto_end :: "pull list \<Rightarrow> pull list" where
  "upto_end [] = []"
| "upto_end (p # ps) = (if noMore p then [p] else p # upto_end ps)"

text \<open>
  Dispatches one at a time: every entry of \<^verbatim>\<open>_response\<close> is followed by its exit before the
  next entry; an exit with \<^verbatim>\<open>"break"\<close> is followed by the cancellation and by nothing else.
  A last entry without exit is a dispatch that threw or is still waiting.
\<close>

fun sequential :: "event list \<Rightarrow> bool" where
  "sequential [] = True"
| "sequential (e # es) =
     (case e of
        Call_response t \<Rightarrow>
          (case es of
             [] \<Rightarrow> True
           | e' # es' \<Rightarrow>
               (e' = Return_response Undefined \<and> sequential es')
               \<or> (e' = Return_response Break \<and> es' = [Stream_cancel]))
      | _ \<Rightarrow> False)"

text \<open>A dispatch is in flight: the last dispatch event is an entry of \<^verbatim>\<open>_response\<close>.\<close>

definition in_flight :: "event list \<Rightarrow> bool" where
  "in_flight es = (case rev es of Call_response t # es' \<Rightarrow> True | _ \<Rightarrow> False)"

text \<open>
  The chimes frame the dispatches: among the chimes and the dispatch events, the first is
  a chime, no chime stands between the dispatches, and, where a closing chime is due,
  the last is a chime too.
\<close>

definition closed_by_chime :: "bool \<Rightarrow> event list \<Rightarrow> bool" where
  "closed_by_chime closing es =
     (if closing then es \<noteq> [] \<and> is_chime (last es) \<and> chimes (butlast es) = []
      else chimes es = [])"

definition framed :: "bool \<Rightarrow> event list \<Rightarrow> bool" where
  "framed closing es = (es \<noteq> [] \<and> is_chime (hd es) \<and> closed_by_chime closing (tl es))"

definition chime_view :: "event list \<Rightarrow> event list" where
  "chime_view es = filter (\<lambda>e. is_chime e \<or> is_dispatch e) es"

text \<open>No other session writes the flag \<^verbatim>\<open>responding\<close> during the ticks \<open>ts\<close>.\<close>

definition undisturbed :: "tick list \<Rightarrow> bool" where
  "undisturbed ts = list_all (\<lambda>t. flag_write t = None) ts"

text \<open>The flag is set and no other session will write it.\<close>

definition flag_held :: "world \<Rightarrow> bool" where
  "flag_held w = (responding (self w) \<and> undisturbed (ticks w))"

text \<open>No tick of \<open>ts\<close> clears the flag, and the caller's check answers false at each.\<close>

definition uninterrupted :: "options \<Rightarrow> tick list \<Rightarrow> bool" where
  "uninterrupted opts ts =
     list_all (\<lambda>t. flag_write t \<noteq> Some False \<and> \<not> call_hasNewMsg opts t) ts"

text \<open>
  A property command is configured, the flag is set, and nothing on the way will
  interrupt: no tick clears the flag and the caller's check stays false.
\<close>

definition steady :: "options \<Rightarrow> world \<Rightarrow> bool" where
  "steady opts w = (playingCommand (self w) \<noteq> None \<and> responding (self w)
                    \<and> uninterrupted opts (ticks w))"

text \<open>
  Three ways to speak of what a step does to the world: it changes nothing but the
  trace, it keeps a property of the world, or it only adds events of one kind to the
  trace.
\<close>

definition traces_only :: "(world \<Rightarrow> 'a completion \<times> world) \<Rightarrow> bool" where
  "traces_only m = (\<forall>w. \<exists>es. snd (m w) = w\<lparr>trace := trace w @ es\<rparr>)"

definition preserves :: "(world \<Rightarrow> bool) \<Rightarrow> (world \<Rightarrow> 'a completion \<times> world) \<Rightarrow> bool" where
  "preserves P m = (\<forall>w. P w \<longrightarrow> P (snd (m w)))"

definition adds :: "(event \<Rightarrow> bool) \<Rightarrow> world \<Rightarrow> world \<Rightarrow> bool" where
  "adds Q w w' = (\<exists>es. trace w' = trace w @ es \<and> list_all Q es)"

definition only_adds :: "(event \<Rightarrow> bool) \<Rightarrow> (world \<Rightarrow> 'a completion \<times> world) \<Rightarrow> bool" where
  "only_adds Q m = (\<forall>w. adds Q w (snd (m w)))"

text \<open>
  The events that tell how a session went: the chimes, the dispatches and the answers of
  the cursor. Every other event is a device call, a sleep or a call of \<^verbatim>\<open>hasNewMsg\<close>.
\<close>

definition is_mark :: "event \<Rightarrow> bool" where
  "is_mark e = (is_chime e \<or> is_dispatch e \<or> pull_of e \<noteq> [])"

definition marks :: "event list \<Rightarrow> event list" where
  "marks es = filter is_mark es"

text \<open>Device calls that are not the chime, sleeps, and calls of \<^verbatim>\<open>hasNewMsg\<close>.\<close>

fun is_plain :: "event \<Rightarrow> bool" where
  "is_plain (MiNA_play Reply args) = True"
| "is_plain MiNA_pause = True"
| "is_plain MiNA_getStatus = True"
| "is_plain (MiIOT_doAction siid aiid arg) = True"
| "is_plain (MiIOT_getProperty siid piid) = True"
| "is_plain (Sleep ms) = True"
| "is_plain (Call_hasNewMsg a) = True"
| "is_plain e = False"

text \<open>
  The course of a stream loop, told by its marks. \<open>session sfx said s r s' ms\<close>: the loop
  that starts with the sentences \<open>said\<close> behind it on the cursor \<open>s\<close>, chime enabled or not
  (\<open>sfx\<close>), can end with \<open>r\<close> and the cursor \<open>s'\<close> having left the marks \<open>ms\<close>. One rule per
  way through a pass of the loop: the cursor has no answer yet; the opening chime or
  the unwaking throws; the dispatch throws or is still waiting; the dispatch is
  interrupted; the dispatch completes and the stream ends or goes on; the cursor had no
  sentence and the stream ends or goes on. \<open>once b e\<close> is the chime \<open>e\<close> where it is due.
\<close>

text \<open>One chime where \<open>b\<close> holds, none otherwise.\<close>

definition chime_due :: "bool \<Rightarrow> event list \<Rightarrow> bool" where
  "chime_due b es = (list_all is_chime es \<and> length es = (if b then 1 else 0))"

text \<open>
  The dispatch marks of one pass on a sentence, with how the pass ends: nothing when the
  opening chime or the unwaking throws, the entry alone when the dispatch throws or
  waits, entry and exit otherwise.
\<close>

definition sentence_marks ::
  "string \<Rightarrow> pull \<Rightarrow> event list \<Rightarrow> pass_exit completion \<Rightarrow> bool" where
  "sentence_marks said p ms r =
     (ms = [] \<and> r = Thrown
      \<or> ms = [Call_response (nextSentence p)] \<and> (r = Thrown \<or> r = Pending)
      \<or> ms = [Call_response (nextSentence p), Return_response Break]
        \<and> r = Returned Stop_break
      \<or> ms = [Call_response (nextSentence p), Return_response Undefined]
        \<and> r = Returned (Go_on Undefined (said @ the (nextSentence p))))"

definition once :: "bool \<Rightarrow> event \<Rightarrow> event list" where
  "once b e = (if b then [e] else [])"

inductive session ::
  "bool \<Rightarrow> string \<Rightarrow> StreamResponse \<Rightarrow> play_result completion \<Rightarrow> StreamResponse \<Rightarrow>
   event list \<Rightarrow> bool" for sfx :: bool where
  no_answer:
    "getNextResponse s = None \<Longrightarrow> session sfx said s Pending s []"
| prelude_thrown:
    "getNextResponse s = Some (p, s') \<Longrightarrow> has_sentence p \<Longrightarrow> is_chime b \<Longrightarrow>
     session sfx said s Thrown s' (Stream_getNextResponse p # once (said = [] \<and> sfx) b)"
| dispatch_open:
    "getNextResponse s = Some (p, s') \<Longrightarrow> has_sentence p \<Longrightarrow> is_chime b \<Longrightarrow>
     r = Thrown \<or> r = Pending \<Longrightarrow>
     session sfx said s r s'
       (Stream_getNextResponse p # once (said = [] \<and> sfx) b
        @ [Call_response (nextSentence p)])"
| interrupted:
    "getNextResponse s = Some (p, s') \<Longrightarrow> has_sentence p \<Longrightarrow> is_chime b \<Longrightarrow>
     session sfx said s (Returned Break) (cancel s')
       (Stream_getNextResponse p # once (said = [] \<and> sfx) b
        @ [Call_response (nextSentence p), Return_response Break, Stream_cancel])"
| last_sentence:
    "getNextResponse s = Some (p, s') \<Longrightarrow> has_sentence p \<Longrightarrow> noMore p \<Longrightarrow>
     is_chime b \<Longrightarrow> is_chime b' \<Longrightarrow> r = Returned Undefined \<or> r = Thrown \<Longrightarrow>
     session sfx said s r s'
       (Stream_getNextResponse p # once (said = [] \<and> sfx) b
        @ [Call_response (nextSentence p), Return_response Undefined] @ once sfx b')"
| next_sentence:
    "getNextResponse s = Some (p, s') \<Longrightarrow> has_sentence p \<Longrightarrow> \<not> noMore p \<Longrightarrow>
     is_chime b \<Longrightarrow> session sfx (said @ the (nextSentence p)) s' r s'' ms \<Longrightarrow>
     session sfx said s r s''
       (Stream_getNextResponse p # once (said = [] \<and> sfx) b
        @ [Call_response (nextSentence p), Return_response Undefined] @ ms)"
| end_of_stream:
    "getNextResponse s = Some (p, s') \<Longrightarrow> \<not> has_sentence p \<Longrightarrow> noMore p \<Longrightarrow>
     is_chime b' \<Longrightarrow> r = Returned Undefined \<or> r = Thrown \<Longrightarrow>
     session sfx said s r s' (Stream_getNextResponse p # once (said \<noteq> [] \<and> sfx) b')"
| nothing_yet:
    "getNextResponse s = Some (p, s') \<Longrightarrow> \<not> has_sentence p \<Longrightarrow> \<not> noMore p \<Longrightarrow>
     session sfx said s' r s'' ms \<Longrightarrow>
     session sfx said s r s'' (Stream_getNextResponse p # ms)"

subsection \<open>Concrete inputs\<close>

text \<open>
  Modelled from the spec: \<^verbatim>\<open>StreamResponse.createStreamResponse\<close> is not among the sources.
  This one splits the text at line feeds, drops the blank pieces, answers one piece per
  pull and then reports no more, as in the spec's scenario of a text of two paragraphs.
  It only serves as the segmenter of the concrete worlds below.
\<close>

fun lines_of :: "string \<Rightarrow> string list" where
  "lines_of [] = [[]]"
| "lines_of (c # cs) =
     (if c = CHR 0x0A then [] # lines_of cs
      else (c # hd (lines_of cs)) # tl (lines_of cs))"

definition by_lines :: "string \<Rightarrow> StreamResponse" where
  "by_lines t =
     \<lparr>pending = map (\<lambda>l. \<lparr>nextSentence = Some l, noMore = False\<rparr>)
                  (filter (\<lambda>l. trim l \<noteq> []) (lines_of t))
                @ [\<lparr>nextSentence = None, noMore = True\<rparr>],
      cancelled = False\<rparr>"

definition never :: "nat \<Rightarrow> bool" where
  "never n = False"

definition fault_at :: "nat \<Rightarrow> nat \<Rightarrow> bool" where
  "fault_at k n = (n = k)"

text \<open>A device that is idle, a caller with no new message, no other session.\<close>

definition quiet_tick :: tick where
  "quiet_tick =
     \<lparr>prop_reply = JUndefined, status_reply = None, new_msg = False, flag_write = None\<rparr>"

definition demo_speaker :: BaseSpeaker where
  "demo_speaker =
     \<lparr>debug = False, checkInterval = 1000, tts = xiaoai, ttsCommand = (5, 1),
      wakeUpCommand = (5, 3), playingCommand = None, audioBeep = Some ''beep.mp3'',
      responding = False, doubaoSpeakers = None,
      defaultSpeaker = ''zh_female_maomao_conversation_wvae_bigtts''\<rparr>"

text \<open>A world with the vendor endpoint and the catalogue endpoint configured.\<close>

definition demo_world :: world where
  "demo_world =
     \<lparr>self = demo_speaker,
      env = \<lparr>TTS_DOUBAO = Some ''http://tts'', SPEAKERS_DOUBAO = Some ''http://speakers''\<rparr>,
      createStreamResponse = by_lines, kAreYouOK = ''ok'', fetch_json = Json_other,
      fault = never, ticks = [quiet_tick, quiet_tick, quiet_tick], trace = []\<rparr>"

text \<open>The same world with no endpoint configured.\<close>

definition bare_world :: world where
  "bare_world = demo_world\<lparr>env := \<lparr>TTS_DOUBAO = None, SPEAKERS_DOUBAO = None\<rparr>\<rparr>"

definition no_options :: options where
  "no_options =
     \<lparr>opt_tts = None, opt_text = None, opt_stream = None, opt_audio = None,
      opt_speaker = None, opt_keepAlive = None, opt_playSFX = None, opt_hasNewMsg = None\<rparr>"

text \<open>Worlds for the catalogue: one that answers with a list, one whose fetch fails, one
  that holds a catalogue from an earlier call and has no endpoint any more.\<close>

definition maomao :: Speaker where
  "maomao = \<lparr>name = ''Maomao'', gender = Female, speaker = ''zh_female_maomao_x''\<rparr>"

definition catalog_world :: world where
  "catalog_world = demo_world\<lparr>fetch_json := Json_array [maomao]\<rparr>"

definition failing_fetch_world :: world where
  "failing_fetch_world = demo_world\<lparr>fetch_json := Fetch_failed\<rparr>"

definition cached_world :: world where
  "cached_world = bare_world\<lparr>self := demo_speaker\<lparr>doubaoSpeakers := Some [maomao]\<rparr>\<rparr>"

text \<open>Requests: a text for the native voice, a text for the vendor voice, a blank text, and
  a blank text for the vendor voice with the device to be kept awake.\<close>

definition native_hi :: options where
  "native_hi = no_options\<lparr>opt_text := Some ''hi''\<rparr>"

definition vendor_hi :: options where
  "vendor_hi = no_options\<lparr>opt_text := Some ''hi'', opt_tts := Some doubao\<rparr>"

definition native_blank :: options where
  "native_blank = no_options\<lparr>opt_text := Some '' ''\<rparr>"

definition vendor_blank :: options where
  "vendor_blank =
     no_options\<lparr>opt_text := Some '' '', opt_tts := Some doubao, opt_keepAlive := Some True\<rparr>"

text \<open>A tick at which the caller reports a new message, another session has cleared the
  flag and the device plays media of its own, all at once.\<close>

definition stormy_tick :: tick where
  "stormy_tick =
     \<lparr>prop_reply = JUndefined,
      status_reply = Some \<lparr>st_status = Some ''playing'', st_media_type = JStr ''music''\<rparr>,
      new_msg = True, flag_write = Some False\<rparr>"

definition caller_checked :: options where
  "caller_checked = native_hi\<lparr>opt_hasNewMsg := Some Caller_hasNewMsg\<rparr>"

text \<open>
  Ticks at which one condition holds and the other two do not: the caller reports a new
  message; another session clears the flag; the device plays media of its own. And a tick
  at which the device still plays the reply (no media type) and nothing interrupts.
\<close>

definition caller_tick :: tick where
  "caller_tick = quiet_tick\<lparr>new_msg := True\<rparr>"

definition flag_tick :: tick where
  "flag_tick = quiet_tick\<lparr>flag_write := Some False\<rparr>"

definition media_tick :: tick where
  "media_tick =
     quiet_tick\<lparr>status_reply :=
       Some \<lparr>st_status = Some ''playing'', st_media_type = JStr ''music''\<rparr>\<rparr>"

definition playing_tick :: tick where
  "playing_tick =
     quiet_tick\<lparr>status_reply :=
       Some \<lparr>st_status = Some ''playing'', st_media_type = JUndefined\<rparr>\<rparr>"

text \<open>The world in the middle of a response: the flag is set.\<close>

definition active_world :: world where
  "active_world = demo_world\<lparr>self := demo_speaker\<lparr>responding := True\<rparr>\<rparr>"

text \<open>The demo world with the ticks \<open>ts\<close> ahead.\<close>

definition world_with :: "tick list \<Rightarrow> world" where
  "world_with ts = demo_world\<lparr>ticks := ts\<rparr>"

text \<open>A request whose text is the ideographic space U+3000 alone.\<close>

definition native_wide_blank :: options where
  "native_wide_blank = no_options\<lparr>opt_text := Some [CHR 0xE3, CHR 0x80, CHR 0x80]\<rparr>"

text \<open>A speaker with the property command of the documentation, \<^verbatim>\<open>[3, 1, 1]\<close>.\<close>

definition property_world :: world where
  "property_world =
     demo_world\<lparr>self := demo_speaker\<lparr>playingCommand := Some (3, 1, 1), responding := True\<rparr>\<rparr>"

text \<open>The spec's scenario: a text of two paragraphs for the vendor voice.\<close>

definition two_paragraphs :: string where
  "two_paragraphs = ''Hello.'' @ [CHR 0x0A, CHR 0x0A] @ ''World.''"

definition vendor_two :: options where
  "vendor_two = no_options\<lparr>opt_text := Some two_paragraphs, opt_tts := Some doubao\<rparr>"

text \<open>A vendor request whose caller reports a new message at the first poll.\<close>

definition vendor_checked :: options where
  "vendor_checked = vendor_hi\<lparr>opt_hasNewMsg := Some Caller_hasNewMsg\<rparr>"

text \<open>The text of two paragraphs for the vendor voice, with a caller's check.\<close>

definition vendor_two_checked :: options where
  "vendor_two_checked = vendor_two\<lparr>opt_hasNewMsg := Some Caller_hasNewMsg\<rparr>"

definition busy_world :: world where
  "busy_world = demo_world\<lparr>ticks := [stormy_tick]\<rparr>"

section \<open>Facts about the steps\<close>

subsection \<open>Basic facts about steps\<close>

lemma emit_simps [simp]:
  "trace (emit e w) = trace w @ [e]"
  "self (emit e w) = self w"
  "env (emit e w) = env w"
  "ticks (emit e w) = ticks w"
  "fault (emit e w) = fault w"
  "createStreamResponse (emit e w) = createStreamResponse w"
  "kAreYouOK (emit e w) = kAreYouOK w"
  by (simp_all add: emit_def)

lemma consult_simps [simp]:
  "trace (consult opts t w) = trace w @ asked opts t"
  "self (consult opts t w) = self w"
  "env (consult opts t w) = env w"
  "ticks (consult opts t w) = ticks w"
  "fault (consult opts t w) = fault w"
  "createStreamResponse (consult opts t w) = createStreamResponse w"
  "kAreYouOK (consult opts t w) = kAreYouOK w"
  by (simp_all add: consult_def)

lemma asked_plain: "e \<in> set (asked opts t) \<Longrightarrow> is_plain e"
  by (auto simp: asked_def split: option.splits)

lemma asked_no_device [simp]: "filter is_device_call (asked opts t) = []"
  by (simp add: asked_def split: option.splits)

lemma land_simps [simp]:
  "trace (land t ts w) = trace w"
  "ticks (land t ts w) = ts"
  "env (land t ts w) = env w"
  "fault (land t ts w) = fault w"
  "playingCommand (self (land t ts w)) = playingCommand (self w)"
  "checkInterval (self (land t ts w)) = checkInterval (self w)"
  "audioBeep (self (land t ts w)) = audioBeep (self w)"
  "responding (self (land t ts w)) = (case flag_write t of None \<Rightarrow> responding (self w) | Some b \<Rightarrow> b)"
  by (simp_all add: land_def split: option.splits)

lemma set_responding_simps [simp]:
  "trace (set_responding b w) = trace w"
  "ticks (set_responding b w) = ticks w"
  "env (set_responding b w) = env w"
  "fault (set_responding b w) = fault w"
  "responding (self (set_responding b w)) = b"
  "playingCommand (self (set_responding b w)) = playingCommand (self w)"
  "audioBeep (self (set_responding b w)) = audioBeep (self w)"
  "tts (self (set_responding b w)) = tts (self w)"
  by (simp_all add: set_responding_def)

lemma snd_device [simp]: "snd (device e w) = emit e w"
  by (simp add: device_def)

lemma fst_device: "fst (device e w) = (if fault w (length (trace w)) then Thrown else Returned ())"
  by (simp add: device_def)

lemma derive_playing_land [simp]:
  "derive_playing (self (land t ts w)) t' = derive_playing (self w) t'"
  by (simp add: derive_playing_def)

lemma poll_event_land [simp]: "poll_event (self (land t ts w)) = poll_event (self w)"
  by (simp add: poll_event_def)

lemma then_do_Returned: "m w = (Returned u, w') \<Longrightarrow> then_do m k w = k w'"
  by (simp add: then_do_def)

lemma snd_then_do:
  "snd (then_do m k w) = (case fst (m w) of Returned u \<Rightarrow> snd (k (snd (m w))) | _ \<Rightarrow> snd (m w))"
  by (cases "m w") (auto simp: then_do_def split: completion.splits)

lemma fst_then_do:
  "fst (then_do m k w) =
     (case fst (m w) of Returned u \<Rightarrow> fst (k (snd (m w))) | Thrown \<Rightarrow> Thrown | Pending \<Rightarrow> Pending)"
  by (cases "m w") (auto simp: then_do_def split: completion.splits)

subsection \<open>Steps that only write to the trace\<close>

lemma traces_onlyD: "traces_only m \<Longrightarrow> \<exists>es. snd (m w) = w\<lparr>trace := trace w @ es\<rparr>"
  by (simp add: traces_only_def)

lemma traces_only_device [simp]: "traces_only (device e)"
  unfolding traces_only_def
proof
  fix w
  have "snd (device e w) = w\<lparr>trace := trace w @ [e]\<rparr>"
    by (simp add: emit_def)
  then show "\<exists>es. snd (device e w) = w\<lparr>trace := trace w @ es\<rparr>" ..
qed

lemma traces_only_skip [simp]: "traces_only skip"
  unfolding traces_only_def skip_def
proof
  fix w :: world
  have "w = w\<lparr>trace := trace w @ []\<rparr>" by simp
  then show "\<exists>es. snd (Returned (), w) = w\<lparr>trace := trace w @ es\<rparr>"
    by (metis snd_conv)
qed

lemma traces_only_sleep [simp]: "traces_only (sleep ms)"
  unfolding traces_only_def sleep_def
proof
  fix w :: world
  have "emit (Sleep ms) w = w\<lparr>trace := trace w @ [Sleep ms]\<rparr>" by (simp add: emit_def)
  then show "\<exists>es. snd (Returned (), emit (Sleep ms) w) = w\<lparr>trace := trace w @ es\<rparr>"
    by (metis snd_conv)
qed

lemma traces_only_return [simp]: "traces_only (\<lambda>w. (r, w))"
  unfolding traces_only_def
proof
  fix w :: world
  have "w = w\<lparr>trace := trace w @ []\<rparr>" by simp
  then show "\<exists>es. snd (r, w) = w\<lparr>trace := trace w @ es\<rparr>"
    by (metis snd_conv)
qed

lemma traces_only_then_do [simp]:
  assumes "traces_only m" "traces_only k"
  shows "traces_only (then_do m k)"
  unfolding traces_only_def
proof
  fix w
  obtain es where m: "snd (m w) = w\<lparr>trace := trace w @ es\<rparr>"
    using traces_onlyD [OF assms(1)] by blast
  show "\<exists>es. snd (then_do m k w) = w\<lparr>trace := trace w @ es\<rparr>"
  proof (cases "fst (m w)")
    case (Returned u)
    obtain es' where k: "snd (k (snd (m w))) = (snd (m w))\<lparr>trace := trace (snd (m w)) @ es'\<rparr>"
      using traces_onlyD [OF assms(2)] by blast
    have "snd (then_do m k w) = w\<lparr>trace := trace w @ (es @ es')\<rparr>"
      using Returned m k by (simp add: snd_then_do)
    then show ?thesis ..
  next
    case Thrown
    then show ?thesis using m by (auto simp: snd_then_do)
  next
    case Pending
    then show ?thesis using m by (auto simp: snd_then_do)
  qed
qed

lemma traces_only_if [simp]:
  "traces_only m \<Longrightarrow> traces_only k \<Longrightarrow> traces_only (if b then m else k)"
  by simp

lemma traces_only_cond:
  "traces_only m \<Longrightarrow> traces_only k \<Longrightarrow> traces_only (\<lambda>w. if c w then m w else k w)"
  by (auto simp: traces_only_def)

lemma traces_only_wakeUp [simp]: "traces_only wakeUp"
  using traces_only_device by (simp add: traces_only_def wakeUp_def)

lemma traces_only_beep [simp]: "traces_only beep"
  using traces_only_device by (simp add: traces_only_def beep_def)

lemma traces_only_unWakeUp [simp]: "traces_only unWakeUp"
  unfolding unWakeUp_def
  by (rule traces_only_then_do) (use traces_only_device in \<open>simp_all add: traces_only_def\<close>)

lemma traces_only_issue [simp]: "traces_only (issue args)"
  using traces_only_device by (simp add: traces_only_def issue_def split: play_args.splits)

lemma traces_only_after_playing [simp]: "traces_only (after_playing playSFX keepAlive)"
  unfolding after_playing_def
  by (intro traces_only_then_do traces_only_cond traces_only_if) simp_all

lemma traces_only_stream_end [simp]: "traces_only (stream_end playSFX keepAlive said)"
  unfolding stream_end_def
  by (intro traces_only_then_do traces_only_if) simp_all

text \<open>A property that does not read the trace survives such a step.\<close>

lemma traces_only_preserves:
  assumes "traces_only m" and "\<And>w es. P w \<Longrightarrow> P (w\<lparr>trace := es\<rparr>)"
  shows "preserves P m"
  unfolding preserves_def
proof (intro allI impI)
  fix w assume "P w"
  obtain es where "snd (m w) = w\<lparr>trace := trace w @ es\<rparr>"
    using traces_onlyD [OF assms(1)] by blast
  with assms(2) [OF \<open>P w\<close>] show "P (snd (m w))" by simp
qed

lemma preservesD: "preserves P m \<Longrightarrow> P w \<Longrightarrow> P (snd (m w))"
  by (simp add: preserves_def)

lemma preserves_then_do:
  assumes "preserves P m" "preserves P k"
  shows "preserves P (then_do m k)"
  unfolding preserves_def
proof (intro allI impI)
  fix w assume "P w"
  then have "P (snd (m w))" using assms(1) by (rule preservesD [rotated])
  then have "P (snd (k (snd (m w))))" using assms(2) by (rule preservesD [rotated])
  with \<open>P (snd (m w))\<close> show "P (snd (then_do m k w))"
    by (simp add: snd_then_do split: completion.splits)
qed

subsection \<open>The flag while no other session writes it\<close>

lemma flag_held_trace [simp]: "flag_held (w\<lparr>trace := es\<rparr>) = flag_held w"
  by (simp add: flag_held_def)

lemma flag_held_emit [simp]: "flag_held (emit e w) = flag_held w"
  by (simp add: flag_held_def)

lemma flag_held_traces_only: "traces_only m \<Longrightarrow> preserves flag_held m"
  by (rule traces_only_preserves) simp_all

lemma wait_playing_flag_held:
  "responding (self w) \<Longrightarrow> undisturbed ts \<Longrightarrow> undisturbed (ticks w)
   \<Longrightarrow> flag_held (snd (wait_playing opts ts w))"
proof (induction ts arbitrary: w)
  case Nil
  then show ?case by (simp add: flag_held_def)
next
  case (Cons t ts)
  let ?w' = "consult opts t (emit (poll_event (self w)) (land t ts w))"
  have t: "flag_write t = None" and ts: "undisturbed ts"
    using Cons.prems(2) by (simp_all add: undisturbed_def)
  have held: "responding (self ?w')" "undisturbed (ticks ?w')"
    using Cons.prems(1) t ts by simp_all
  have step: "flag_held (snd (wait_playing opts ts (emit (Sleep (checkInterval (self ?w'))) ?w')))"
    by (rule Cons.IH) (use held ts in simp_all)
  show ?case
    using step held by (auto simp: device_def flag_held_def)
qed

lemma preserves_await_playing: "preserves flag_held (await_playing opts playSFX keepAlive)"
  unfolding preserves_def
proof (intro allI impI)
  fix w assume w: "flag_held w"
  then have held: "flag_held (snd (wait_playing opts (ticks w) w))"
    by (intro wait_playing_flag_held) (simp_all add: flag_held_def)
  have after: "flag_held (snd (after_playing playSFX keepAlive (snd (wait_playing opts (ticks w) w))))"
    using flag_held_traces_only [OF traces_only_after_playing] held by (rule preservesD)
  show "flag_held (snd (await_playing opts playSFX keepAlive w))"
    using held after
    by (cases "wait_playing opts (ticks w) w")
       (auto simp: await_playing_def split: completion.splits wait_exit.splits)
qed

lemma preserves_play: "preserves flag_held (play opts playSFX ttsNotXiaoai keepAlive args)"
  unfolding play_def
  by (intro preserves_then_do preserves_await_playing flag_held_traces_only
        traces_only_cond traces_only_if)
     simp_all

lemma preserves_private_response: "preserves flag_held (private_response opts)"
  using preserves_play
  by (auto simp: preserves_def private_response_def Let_def split: TTSProvider.splits)

lemma preserves_call_response: "preserves flag_held (call_response opts)"
  unfolding preserves_def
proof (intro allI impI)
  fix w assume "flag_held w"
  then have "flag_held (snd (private_response opts (emit (Call_response (opt_text opts)) w)))"
    using preserves_private_response by (intro preservesD [where P = flag_held]) simp_all
  then show "flag_held (snd (call_response opts w))"
    by (cases "private_response opts (emit (Call_response (opt_text opts)) w)")
       (auto simp: call_response_def split: completion.splits)
qed

lemma preserves_dispatch_chunk: "preserves flag_held (dispatch_chunk opts said p)"
  unfolding preserves_def
proof (intro allI impI)
  fix w assume "flag_held w"
  then have "flag_held (snd (call_response (chunk_options opts p) w))"
    using preserves_call_response by (rule preservesD [rotated])
  then show "flag_held (snd (dispatch_chunk opts said p w))"
    by (cases "call_response (chunk_options opts p) w")
       (auto simp: dispatch_chunk_def split: completion.splits)
qed

lemma preserves_stream_sentence:
  "preserves flag_held (stream_sentence opts playSFX ttsNotXiaoai res said p)"
proof (cases "truthy_str (nextSentence p)")
  case True
  have "preserves flag_held
          (then_do (if said = [] \<and> playSFX then beep else skip)
             (then_do (if said = [] \<and> ttsNotXiaoai then unWakeUp else skip)
                (dispatch_chunk opts said p)))"
    by (intro preserves_then_do preserves_dispatch_chunk flag_held_traces_only traces_only_if)
       simp_all
  with True show ?thesis by (simp add: stream_sentence_def)
next
  case False
  then show ?thesis by (simp add: stream_sentence_def preserves_def)
qed

lemma response_stream_flag_held:
  "flag_held w \<Longrightarrow>
   flag_held (snd (snd (response_stream opts playSFX ttsNotXiaoai keepAlive res said s w)))"
proof (induction opts playSFX ttsNotXiaoai keepAlive res said s w rule: response_stream.induct)
  case (1 opts playSFX ttsNotXiaoai keepAlive res said s w)
  show ?case
  proof (cases "getNextResponse s")
    case None
    then show ?thesis using "1.prems" by (subst response_stream.simps) simp
  next
    case (Some ps)
    obtain p s' where ps: "ps = (p, s')" by (cases ps)
    let ?m = "stream_sentence opts playSFX ttsNotXiaoai res said p (emit (Stream_getNextResponse p) w)"
    obtain r w1 where m: "?m = (r, w1)" by (cases ?m)
    have w1: "flag_held w1"
      using preservesD [OF preserves_stream_sentence, of "emit (Stream_getNextResponse p) w"
              opts playSFX ttsNotXiaoai res said p] "1.prems" m
      by simp
    show ?thesis
    proof (cases r)
      case (Returned x)
      show ?thesis
      proof (cases x)
        case Stop_break
        then show ?thesis
          using Some ps m Returned w1 by (subst response_stream.simps) simp
      next
        case (Go_on res' said')
        show ?thesis
        proof (cases "noMore p")
          case True
          have "flag_held (snd (stream_end playSFX keepAlive said' w1))"
            using flag_held_traces_only [OF traces_only_stream_end] w1 by (rule preservesD)
          then show ?thesis
            using Some ps m Returned Go_on True
            by (subst response_stream.simps)
               (cases "stream_end playSFX keepAlive said' w1",
                auto split: completion.splits)
        next
          case False
          have "flag_held (snd (snd (response_stream opts playSFX ttsNotXiaoai keepAlive res' said' s'
                  (emit (Sleep (checkInterval (self w1))) w1))))"
            using "1.IH" [OF Some ps [symmetric] m [symmetric] Returned Go_on False] w1
            by simp
          then show ?thesis
            using Some ps m Returned Go_on False by (subst response_stream.simps) simp
        qed
      qed
    next
      case Thrown
      then show ?thesis using Some ps m w1 by (subst response_stream.simps) simp
    next
      case Pending
      then show ?thesis using Some ps m w1 by (subst response_stream.simps) simp
    qed
  qed
qed

subsection \<open>Without an interruption the polling loop does not break\<close>

lemma fst_then_do_Returned:
  "fst (then_do m k w) = Returned x \<Longrightarrow> fst (k (snd (m w))) = Returned x"
  by (simp add: fst_then_do split: completion.splits)

lemma wait_playing_no_break:
  "playingCommand (self w) = Some pc \<Longrightarrow> responding (self w) \<Longrightarrow> uninterrupted opts ts
   \<Longrightarrow> fst (wait_playing opts ts w) \<noteq> Returned Return_break"
proof (induction ts arbitrary: w)
  case Nil
  then show ?case by simp
next
  case (Cons t ts)
  let ?w' = "consult opts t (emit (poll_event (self w)) (land t ts w))"
  have t: "flag_write t \<noteq> Some False" "\<not> call_hasNewMsg opts t" and ts: "uninterrupted opts ts"
    using Cons.prems(3) by (simp_all add: uninterrupted_def)
  have r: "responding (self ?w')"
    using Cons.prems(2) t(1) by (cases "flag_write t") auto
  have no_media: "interruption False True (derive_playing (self w) t) = None"
    using Cons.prems(1) by (auto simp: interruption_def derive_playing_def idle_def split: prod.splits)
  have step: "fst (wait_playing opts ts (emit (Sleep (checkInterval (self ?w'))) ?w'))
                \<noteq> Returned Return_break"
    by (rule Cons.IH) (use Cons.prems(1) r ts in simp_all)
  show ?case
    using step r t(2) no_media by (auto simp: device_def)
qed

lemma steady_trace [simp]: "steady opts (w\<lparr>trace := es\<rparr>) = steady opts w"
  by (simp add: steady_def)

lemma await_playing_no_break:
  assumes "steady opts w"
  shows "fst (await_playing opts playSFX keepAlive w) \<noteq> Returned Break"
proof -
  obtain pc where pc: "playingCommand (self w) = Some pc"
    using assms by (auto simp: steady_def)
  have nb: "fst (wait_playing opts (ticks w) w) \<noteq> Returned Return_break"
    using assms pc by (intro wait_playing_no_break) (auto simp: steady_def)
  have after: "fst (after_playing playSFX keepAlive w') \<noteq> Returned Break" for w'
    by (simp add: after_playing_def fst_then_do split: completion.splits)
  show ?thesis
    using nb after
    by (cases "wait_playing opts (ticks w) w")
       (auto simp: await_playing_def split: completion.splits wait_exit.splits)
qed

lemma play_no_break:
  assumes "steady opts w"
  shows "fst (play opts playSFX ttsNotXiaoai keepAlive args w) \<noteq> Returned Break"
proof
  let ?a = "\<lambda>w. if playSFX \<and> truthy_str (audioBeep (self w)) then beep w else skip w"
  let ?b = "if ttsNotXiaoai then unWakeUp else skip"
  let ?pre = "then_do ?a (then_do ?b (then_do (issue args) (sleep 3000)))"
  assume brk: "fst (play opts playSFX ttsNotXiaoai keepAlive args w) = Returned Break"
  have tr: "traces_only ?a" "traces_only ?b" "traces_only (issue args)" "traces_only (sleep 3000)"
    by (simp_all add: traces_only_cond)
  have keep: "preserves (steady opts) m" if "traces_only m" for m :: "world \<Rightarrow> unit completion \<times> world"
    using that by (rule traces_only_preserves) simp
  let ?w1 = "snd (?a w)"
  let ?w2 = "snd (?b ?w1)"
  let ?w3 = "snd (issue args ?w2)"
  let ?w4 = "snd (sleep 3000 ?w3)"
  have "steady opts ?w1" using keep [OF tr(1)] assms by (rule preservesD)
  then have "steady opts ?w2" using keep [OF tr(2)] by (rule preservesD [rotated])
  then have "steady opts ?w3" using keep [OF tr(3)] by (rule preservesD [rotated])
  then have s4: "steady opts ?w4" using keep [OF tr(4)] by (rule preservesD [rotated])
  have "fst (await_playing opts playSFX keepAlive ?w4) = Returned Break"
    using brk unfolding play_def
    by (auto dest!: fst_then_do_Returned)
  with await_playing_no_break [OF s4] show False by simp
qed

subsection \<open>Unfolding on concrete inputs\<close>

lemmas demo_defs =
  demo_world_def bare_world_def demo_speaker_def no_options_def quiet_tick_def
  native_hi_def vendor_hi_def native_blank_def vendor_blank_def never_def fault_at_def
  maomao_def catalog_world_def failing_fetch_world_def cached_world_def stormy_tick_def
  caller_checked_def property_world_def two_paragraphs_def vendor_two_def
  vendor_checked_def busy_world_def caller_tick_def flag_tick_def media_tick_def
  playing_tick_def active_world_def world_with_def native_wide_blank_def
  vendor_two_checked_def

lemmas response_defs =
  response_def with_default_check_def chime_enabled_def chime_requested_def keep_alive_def
  tts_not_xiaoai_def effective_tts_def requested_tts_def session_stream_def
  call_response_def private_response_def play_def await_playing_def after_playing_def
  issue_def beep_def unWakeUp_def wakeUp_def then_do_def device_def skip_def sleep_def
  emit_def land_def set_responding_def interruption_def call_hasNewMsg_def
  asked_def consult_def
  derive_playing_def poll_event_def idle_def vendor_url_def
  outcome_def world_after_def options_after_def stream_after_def

lemmas stream_defs =
  stream_sentence_def dispatch_chunk_def chunk_options_def stream_end_def
  getNextResponse_def cancel_def by_lines_def

lemmas text_defs =
  normalize_def trim_def white_space_def space_length_def blank_run_def
  encodeURIComponent_def
  percent_encode_def unreserved_def hex_digit_def

subsection \<open>What a step adds to the trace\<close>

lemma adds_refl [simp]: "adds Q w w"
  by (simp add: adds_def)

lemma adds_emit: "Q e \<Longrightarrow> adds Q w (emit e w)"
  by (simp add: adds_def)

lemma adds_trans: "adds Q w w1 \<Longrightarrow> adds Q w1 w2 \<Longrightarrow> adds Q w w2"
  by (auto simp: adds_def)

lemma adds_mono: "adds Q w w' \<Longrightarrow> (\<And>e. Q e \<Longrightarrow> Q' e) \<Longrightarrow> adds Q' w w'"
  by (auto simp: adds_def list_all_iff)

lemma adds_set_responding [simp]:
  "adds Q w (set_responding b w') = adds Q w w'"
  "adds Q (set_responding b w) w' = adds Q w w'"
  by (simp_all add: adds_def)

lemma only_addsD: "only_adds Q m \<Longrightarrow> adds Q w (snd (m w))"
  by (simp add: only_adds_def)

lemma only_adds_device: "Q e \<Longrightarrow> only_adds Q (device e)"
  by (simp add: only_adds_def adds_emit)

lemma only_adds_skip [simp]: "only_adds Q skip"
  by (simp add: only_adds_def skip_def)

lemma only_adds_return [simp]: "only_adds Q (\<lambda>w. (r, w))"
  by (simp add: only_adds_def)

lemma only_adds_sleep: "Q (Sleep ms) \<Longrightarrow> only_adds Q (sleep ms)"
  by (simp add: only_adds_def sleep_def adds_emit)

lemma only_adds_then_do:
  assumes "only_adds Q m" "only_adds Q k"
  shows "only_adds Q (then_do m k)"
  unfolding only_adds_def
proof
  fix w
  have m: "adds Q w (snd (m w))" using assms(1) by (rule only_addsD)
  have k: "adds Q (snd (m w)) (snd (k (snd (m w))))" using assms(2) by (rule only_addsD)
  show "adds Q w (snd (then_do m k w))"
    using m adds_trans [OF m k] by (simp add: snd_then_do split: completion.splits)
qed

lemma only_adds_if:
  "only_adds Q m \<Longrightarrow> only_adds Q k \<Longrightarrow> only_adds Q (if b then m else k)"
  by simp

lemma only_adds_cond:
  "(\<And>w. c w \<Longrightarrow> adds Q w (snd (m w))) \<Longrightarrow> only_adds Q k
   \<Longrightarrow> only_adds Q (\<lambda>w. if c w then m w else k w)"
  by (simp add: only_adds_def)

text \<open>
  The steps below add device calls and sleeps only; \<open>Q\<close> is any kind of event that
  takes in the plain ones, and the chime where the step may play it.
\<close>

lemma only_adds_wakeUp: "(\<And>e. is_plain e \<Longrightarrow> Q e) \<Longrightarrow> only_adds Q wakeUp"
  by (simp add: only_adds_def wakeUp_def adds_emit)

lemma only_adds_unWakeUp: "(\<And>e. is_plain e \<Longrightarrow> Q e) \<Longrightarrow> only_adds Q unWakeUp"
  unfolding unWakeUp_def
  by (rule only_adds_then_do) (simp_all add: only_adds_def adds_emit)

lemma only_adds_issue: "(\<And>e. is_plain e \<Longrightarrow> Q e) \<Longrightarrow> only_adds Q (issue args)"
  by (simp add: only_adds_def issue_def adds_emit split: play_args.splits)

lemma only_adds_beep: "(\<And>e. is_chime e \<Longrightarrow> Q e) \<Longrightarrow> only_adds Q beep"
  by (simp add: only_adds_def beep_def adds_emit)

lemma adds_wait_playing:
  "(\<And>e. is_plain e \<Longrightarrow> Q e) \<Longrightarrow> adds Q w (snd (wait_playing opts ts w))"
proof (induction ts arbitrary: w)
  case Nil
  then show ?case by simp
next
  case (Cons t ts)
  let ?w' = "consult opts t (emit (poll_event (self w)) (land t ts w))"
  have poll: "is_plain (poll_event (self w))"
    by (simp add: poll_event_def split: option.splits prod.splits)
  have a0: "adds Q w (emit (poll_event (self w)) (land t ts w))"
    using Cons.prems [OF poll] by (simp add: adds_def)
  have a: "adds Q w ?w'"
    unfolding adds_def
    by (rule exI [of _ "poll_event (self w) # asked opts t"])
       (auto simp: list_all_iff intro: Cons.prems poll asked_plain)
  have b: "adds Q ?w' (emit (Sleep (checkInterval (self ?w'))) ?w')"
    by (rule adds_emit) (simp add: Cons.prems)
  have c: "adds Q (emit (Sleep (checkInterval (self ?w'))) ?w')
             (snd (wait_playing opts ts (emit (Sleep (checkInterval (self ?w'))) ?w')))"
    by (rule Cons.IH) (rule Cons.prems)
  show ?case
    using a0 a adds_trans [OF a adds_trans [OF b c]] by (auto simp: device_def)
qed

lemma only_adds_after_playing:
  assumes "\<And>e. is_plain e \<Longrightarrow> Q e" and "playSFX \<Longrightarrow> (\<And>e. is_chime e \<Longrightarrow> Q e)"
  shows "only_adds Q (after_playing playSFX keepAlive)"
  unfolding after_playing_def
  by (intro only_adds_then_do only_adds_cond only_adds_if only_adds_wakeUp only_addsD
        only_adds_beep)
     (use assms in auto)

lemma only_adds_await_playing:
  assumes "\<And>e. is_plain e \<Longrightarrow> Q e" and "playSFX \<Longrightarrow> (\<And>e. is_chime e \<Longrightarrow> Q e)"
  shows "only_adds Q (await_playing opts playSFX keepAlive)"
  unfolding only_adds_def
proof
  fix w
  let ?w' = "snd (wait_playing opts (ticks w) w)"
  have a: "adds Q w ?w'" using assms(1) by (rule adds_wait_playing)
  have b: "adds Q ?w' (snd (after_playing playSFX keepAlive ?w'))"
    using only_adds_after_playing [of Q playSFX keepAlive] assms by (intro only_addsD) blast
  show "adds Q w (snd (await_playing opts playSFX keepAlive w))"
    using a adds_trans [OF a b]
    by (cases "wait_playing opts (ticks w) w")
       (auto simp: await_playing_def split: completion.splits wait_exit.splits)
qed

lemma only_adds_play:
  assumes "\<And>e. is_plain e \<Longrightarrow> Q e" and "playSFX \<Longrightarrow> (\<And>e. is_chime e \<Longrightarrow> Q e)"
  shows "only_adds Q (play opts playSFX ttsNotXiaoai keepAlive args)"
  unfolding play_def
  by (intro only_adds_then_do only_adds_cond only_adds_if only_adds_unWakeUp only_adds_issue
        only_adds_sleep only_adds_await_playing only_addsD only_adds_beep)
     (use assms in auto)

lemma adds_private_response:
  assumes "\<And>e. is_plain e \<Longrightarrow> Q e"
    and "opt_stream opts = None \<and> truthy_str (opt_text opts) \<and> \<not> truthy_str (opt_audio opts)
         \<and> requested_tts opts w \<noteq> xiaoai \<and> chime_requested opts
         \<Longrightarrow> (\<And>e. is_chime e \<Longrightarrow> Q e)"
  shows "adds Q w (snd (private_response opts w))"
proof -
  let ?tnx = "opt_stream opts = None \<and> truthy_str (opt_text opts) \<and> \<not> truthy_str (opt_audio opts)
              \<and> requested_tts opts w \<noteq> xiaoai"
  have "adds Q w (snd (play opts (?tnx \<and> chime_requested opts) ?tnx (keep_alive opts) args w))"
    for args
    using only_adds_play [of Q "?tnx \<and> chime_requested opts" opts ?tnx "keep_alive opts" args] assms
    by (intro only_addsD) blast
  then show ?thesis
    by (auto simp: private_response_def Let_def split: TTSProvider.splits)
qed

subsection \<open>The marks of the steps of the stream loop\<close>

lemma marks_simps [simp]:
  "marks [] = []"
  "marks (es @ es') = marks es @ marks es'"
  "marks (e # es) = (if is_mark e then e # marks es else marks es)"
  by (simp_all add: marks_def)

lemma is_mark_simps [simp]:
  "is_mark (Stream_getNextResponse p)"
  "is_mark (Call_response t)"
  "is_mark (Return_response x)"
  "is_mark Stream_cancel"
  "is_mark (MiNA_play Beep a)"
  "\<not> is_mark (Sleep ms)"
  by (simp_all add: is_mark_def)

lemma plain_no_mark: "is_plain e \<Longrightarrow> \<not> is_mark e"
  by (cases e rule: is_plain.cases) (simp_all add: is_mark_def)

lemma marks_plain: "list_all is_plain es \<Longrightarrow> marks es = []"
  by (induction es) (simp_all add: plain_no_mark)

lemma adds_plainE:
  assumes "adds is_plain w w'"
  obtains es where "trace w' = trace w @ es" "marks es = []"
  using assms by (auto simp: adds_def marks_plain)

lemma chime_due_simps [simp]:
  "chime_due False es = (es = [])"
  "chime_due b [] = (\<not> b)"
  "chime_due True [MiNA_play Beep a]"
  by (auto simp: chime_due_def)

lemma chime_dueE:
  assumes "chime_due b c"
  obtains e where "is_chime e" "c = once b e"
proof -
  have all: "list_all is_chime c" and len: "length c = (if b then 1 else 0)"
    using assms by (simp_all add: chime_due_def)
  show ?thesis
  proof (cases b)
    case True
    then obtain e where "c = [e]" using len by (cases c) auto
    with all True that show ?thesis by (simp add: once_def)
  next
    case False
    then have "c = []" using len by simp
    with False that [of "MiNA_play Beep (Args_url None)"] show ?thesis by (simp add: once_def)
  qed
qed

lemma cond_beep_marks:
  "\<exists>es. trace (snd ((if b then beep else skip) w)) = trace w @ es \<and> chime_due b (marks es)"
proof (cases b)
  case True
  have "trace (snd (beep w)) = trace w @ [MiNA_play Beep (Args_url (audioBeep (self w)))]"
    by (simp add: beep_def)
  with True show ?thesis
    by (intro exI [of _ "[MiNA_play Beep (Args_url (audioBeep (self w)))]"]) simp
next
  case False
  then show ?thesis by (simp add: skip_def)
qed

lemma cond_beep_fst:
  "fst ((if b then beep else skip) w) = Returned () \<or> fst ((if b then beep else skip) w) = Thrown"
  by (simp add: beep_def skip_def device_def)

lemma cond_unit_fst:
  "fst ((if b then unWakeUp else skip) w) = Returned ()
   \<or> fst ((if b then unWakeUp else skip) w) = Thrown"
  by (simp add: unWakeUp_def skip_def device_def fst_then_do split: completion.splits)

lemma cond_wake_fst:
  "fst ((if b then wakeUp else skip) w) = Returned ()
   \<or> fst ((if b then wakeUp else skip) w) = Thrown"
  by (simp add: wakeUp_def skip_def device_def)

lemma stream_end_marks:
  "\<exists>es. trace (snd (stream_end sfx keepAlive said w)) = trace w @ es
        \<and> chime_due (said \<noteq> [] \<and> sfx) (marks es)
        \<and> (fst (stream_end sfx keepAlive said w) = Returned ()
            \<or> fst (stream_end sfx keepAlive said w) = Thrown)"
proof -
  let ?b = "if said \<noteq> [] \<and> sfx then beep else skip"
  let ?k = "if keepAlive then wakeUp else skip"
  obtain es where es: "trace (snd (?b w)) = trace w @ es" "chime_due (said \<noteq> [] \<and> sfx) (marks es)"
    using cond_beep_marks by blast
  have "adds is_plain (snd (?b w)) (snd (?k (snd (?b w))))"
    by (intro only_addsD only_adds_if only_adds_wakeUp) simp_all
  then obtain es' where es': "trace (snd (?k (snd (?b w)))) = trace (snd (?b w)) @ es'" "marks es' = []"
    by (rule adds_plainE)
  show ?thesis
  proof (cases "fst (?b w)")
    case (Returned u)
    then have "trace (snd (stream_end sfx keepAlive said w)) = trace w @ (es @ es')"
      using es es' by (simp add: stream_end_def snd_then_do)
    moreover have "chime_due (said \<noteq> [] \<and> sfx) (marks (es @ es'))"
      using es es' by simp
    moreover have "fst (stream_end sfx keepAlive said w) = Returned ()
                   \<or> fst (stream_end sfx keepAlive said w) = Thrown"
      using Returned cond_wake_fst [of keepAlive "snd (?b w)"]
      by (simp add: stream_end_def fst_then_do)
    ultimately show ?thesis by blast
  next
    case Thrown
    then show ?thesis using es by (auto simp: stream_end_def snd_then_do fst_then_do)
  next
    case Pending
    then show ?thesis using cond_beep_fst [of "said \<noteq> [] \<and> sfx" w] by simp
  qed
qed

lemma call_response_marks:
  assumes "\<not> chime_requested opts
           \<or> \<not> (opt_stream opts = None \<and> truthy_str (opt_text opts)
                 \<and> \<not> truthy_str (opt_audio opts) \<and> requested_tts opts w \<noteq> xiaoai)"
  shows "\<exists>es. trace (snd (call_response opts w)) = trace w @ es
          \<and> marks es = Call_response (opt_text opts)
                # (case fst (call_response opts w) of
                     Returned x \<Rightarrow> [Return_response x] | Thrown \<Rightarrow> [] | Pending \<Rightarrow> [])"
proof -
  let ?w0 = "emit (Call_response (opt_text opts)) w"
  have "requested_tts opts ?w0 = requested_tts opts w"
    by (simp add: requested_tts_def split: option.splits)
  then have "adds is_plain ?w0 (snd (private_response opts ?w0))"
    using assms by (intro adds_private_response) auto
  then obtain es where es: "trace (snd (private_response opts ?w0)) = trace ?w0 @ es" "marks es = []"
    by (rule adds_plainE)
  show ?thesis
  proof (cases "private_response opts ?w0")
    case (Pair r w')
    then show ?thesis
      using es
      by (cases r)
         (auto simp: call_response_def
               intro: exI [of _ "Call_response (opt_text opts) # es @ [Return_response x]" for x]
                      exI [of _ "Call_response (opt_text opts) # es"])
  qed
qed

lemma dispatch_chunk_marks:
  "\<exists>es. trace (snd (dispatch_chunk opts said p w)) = trace w @ es
        \<and> sentence_marks said p (marks es) (fst (dispatch_chunk opts said p w))"
proof -
  let ?o = "chunk_options opts p"
  let ?d = "dispatch_chunk opts said p w"
  have nc: "\<not> chime_requested ?o" and tx: "opt_text ?o = nextSentence p"
    by (simp_all add: chunk_options_def chime_requested_def)
  obtain es where es: "trace (snd (call_response ?o w)) = trace w @ es"
    "marks es = Call_response (nextSentence p)
       # (case fst (call_response ?o w) of
            Returned x \<Rightarrow> [Return_response x] | Thrown \<Rightarrow> [] | Pending \<Rightarrow> [])"
    using call_response_marks [of ?o w] nc unfolding tx by blast
  obtain r w' where c: "call_response ?o w = (r, w')" by (cases "call_response ?o w")
  have tr: "trace (snd ?d) = trace w @ es"
    using es(1) c by (simp add: dispatch_chunk_def split: completion.splits)
  have "sentence_marks said p (marks es) (fst ?d)"
  proof (cases r)
    case (Returned x)
    then show ?thesis
      using es(2) c by (cases x) (simp_all add: dispatch_chunk_def sentence_marks_def)
  next
    case Thrown
    then show ?thesis using es(2) c by (simp add: dispatch_chunk_def sentence_marks_def)
  next
    case Pending
    then show ?thesis using es(2) c by (simp add: dispatch_chunk_def sentence_marks_def)
  qed
  with tr show ?thesis by blast
qed

lemma stream_sentence_idle:
  "\<not> has_sentence p \<Longrightarrow>
   stream_sentence opts sfx tnx res said p w = (Returned (Go_on res said), w)"
  by (simp add: stream_sentence_def has_sentence_def)

lemma stream_sentence_marks:
  assumes "has_sentence p"
  shows "\<exists>es c d. trace (snd (stream_sentence opts sfx tnx res said p w)) = trace w @ es
          \<and> marks es = c @ d \<and> chime_due (said = [] \<and> sfx) c
          \<and> sentence_marks said p d (fst (stream_sentence opts sfx tnx res said p w))"
proof -
  let ?b = "if said = [] \<and> sfx then beep else skip"
  let ?u = "if said = [] \<and> tnx then unWakeUp else skip"
  let ?d = "dispatch_chunk opts said p"
  let ?m = "stream_sentence opts sfx tnx res said p"
  have m: "?m = then_do ?b (then_do ?u ?d)"
    using assms by (simp add: stream_sentence_def has_sentence_def)
  let ?w1 = "snd (?b w)"
  let ?w2 = "snd (?u ?w1)"
  obtain e1 where e1: "trace ?w1 = trace w @ e1" "chime_due (said = [] \<and> sfx) (marks e1)"
    using cond_beep_marks by blast
  have "adds is_plain ?w1 ?w2"
    by (intro only_addsD only_adds_if only_adds_unWakeUp) simp_all
  then obtain e2 where e2: "trace ?w2 = trace ?w1 @ e2" "marks e2 = []"
    by (rule adds_plainE)
  obtain e3 where e3: "trace (snd (?d ?w2)) = trace ?w2 @ e3"
    "sentence_marks said p (marks e3) (fst (?d ?w2))"
    using dispatch_chunk_marks by blast
  consider (b) "fst (?b w) = Thrown"
    | (u) "fst (?b w) = Returned ()" "fst (?u ?w1) = Thrown"
    | (d) "fst (?b w) = Returned ()" "fst (?u ?w1) = Returned ()"
    using cond_beep_fst [of "said = [] \<and> sfx" w] cond_unit_fst [of "said = [] \<and> tnx" ?w1]
    by blast
  then show ?thesis
  proof cases
    case b
    then have "trace (snd (?m w)) = trace w @ e1" "fst (?m w) = Thrown"
      using e1 by (simp_all add: m snd_then_do fst_then_do)
    moreover have "marks e1 = marks e1 @ []" by simp
    moreover have "sentence_marks said p [] Thrown" by (simp add: sentence_marks_def)
    ultimately show ?thesis using e1(2) by metis
  next
    case u
    then have "trace (snd (?m w)) = trace w @ (e1 @ e2)" "fst (?m w) = Thrown"
      using e1 e2 by (simp_all add: m snd_then_do fst_then_do)
    moreover have "marks (e1 @ e2) = marks e1 @ []" using e2 by simp
    moreover have "sentence_marks said p [] Thrown" by (simp add: sentence_marks_def)
    ultimately show ?thesis using e1(2) by metis
  next
    case d
    then have "trace (snd (?m w)) = trace w @ (e1 @ e2 @ e3)" "fst (?m w) = fst (?d ?w2)"
      using e1 e2 e3 by (simp_all add: m snd_then_do fst_then_do)
    moreover have "marks (e1 @ e2 @ e3) = marks e1 @ marks e3" using e2 by simp
    ultimately show ?thesis using e1(2) e3(2) by metis
  qed
qed

lemma response_stream_session:
  "res = Undefined \<Longrightarrow>
   response_stream opts sfx tnx ka res said s w = (r, s'', w') \<Longrightarrow>
   \<exists>es. trace w' = trace w @ es \<and> session sfx said s r s'' (marks es)"
proof (induction opts sfx tnx ka res said s w arbitrary: r s'' w' rule: response_stream.induct)
  case (1 opts sfx tnx ka res said s w)
  note res = "1.prems"(1) and run = "1.prems"(2)
  show ?case
  proof (cases "getNextResponse s")
    case None
    then have "(r, s'', w') = (Pending, s, w)"
      using run by (subst (asm) response_stream.simps) simp
    then show ?thesis
      using None by (auto intro: session.no_answer)
  next
    case (Some ps)
    obtain p s1 where ps: "ps = (p, s1)" by (cases ps)
    note get = Some [unfolded ps]
    let ?w0 = "emit (Stream_getNextResponse p) w"
    obtain x w1 where m: "stream_sentence opts sfx tnx res said p ?w0 = (x, w1)"
      by (cases "stream_sentence opts sfx tnx res said p ?w0")
    let ?t = "nextSentence p"
    show ?thesis
    proof (cases "has_sentence p")
      case True
      then have said': "said @ the ?t \<noteq> []"
        by (cases ?t) (simp_all add: has_sentence_def)
      obtain es c d where es: "trace w1 = trace ?w0 @ es" "marks es = c @ d"
        "chime_due (said = [] \<and> sfx) c" "sentence_marks said p d x"
        using stream_sentence_marks [OF True, of opts sfx tnx res said ?w0] m by auto
      obtain b where b: "is_chime b" and c: "c = once (said = [] \<and> sfx) b"
        using es(3) by (rule chime_dueE)
      have tr1: "trace w1 = trace w @ (Stream_getNextResponse p # es)"
        using es(1) by simp
      have mk1: "marks (Stream_getNextResponse p # es) = Stream_getNextResponse p # c @ d"
        using es(2) by simp
      consider (thrown) "d = []" "x = Thrown"
        | (inflight) "d = [Call_response ?t]" "x = Thrown \<or> x = Pending"
        | (stop) "d = [Call_response ?t, Return_response Break]" "x = Returned Stop_break"
        | (go) "d = [Call_response ?t, Return_response Undefined]"
              "x = Returned (Go_on Undefined (said @ the ?t))"
        using es(4) by (auto simp: sentence_marks_def)
      then show ?thesis
      proof cases
        case thrown
        have "(r, s'', w') = (Thrown, s1, w1)"
          using run get m thrown(2) by (subst (asm) response_stream.simps) simp
        then show ?thesis
          using tr1 mk1 thrown(1) c session.prelude_thrown [OF get True b] by auto
      next
        case inflight
        have rs: "s'' = s1" "w' = w1" "r = Thrown \<or> r = Pending"
          using run get m inflight(2) by (subst (asm) response_stream.simps; auto)+
        show ?thesis
          using tr1 mk1 inflight(1) c rs(1,2) session.dispatch_open [OF get True b rs(3)] by auto
      next
        case stop
        have "(r, s'', w') = (Returned Break, cancel s1, emit Stream_cancel w1)"
          using run get m stop(2) by (subst (asm) response_stream.simps) simp
        moreover have "trace (emit Stream_cancel w1)
                       = trace w @ (Stream_getNextResponse p # es @ [Stream_cancel])"
          using tr1 by simp
        moreover have "marks (Stream_getNextResponse p # es @ [Stream_cancel])
                       = Stream_getNextResponse p # once (said = [] \<and> sfx) b
                         @ [Call_response ?t, Return_response Break, Stream_cancel]"
          using es(2) stop(1) c by simp
        ultimately show ?thesis
          using session.interrupted [OF get True b] by (metis prod.inject)
      next
        case go
        show ?thesis
        proof (cases "noMore p")
          case True
          let ?e = "stream_end sfx ka (said @ the ?t) w1"
          obtain ee where ee: "trace (snd ?e) = trace w1 @ ee" "chime_due sfx (marks ee)"
            "fst ?e = Returned () \<or> fst ?e = Thrown"
            using stream_end_marks [of sfx ka "said @ the ?t" w1] said' by auto
          obtain b' where b': "is_chime b'" and e: "marks ee = once sfx b'"
            using ee(2) by (rule chime_dueE)
          have rs: "s'' = s1" "w' = snd ?e" "r = Returned Undefined \<or> r = Thrown"
            using run get m go(2) True ee(3)
            by (subst (asm) response_stream.simps; cases ?e; auto)+
          have "trace w' = trace w @ (Stream_getNextResponse p # es @ ee)"
            using rs(2) ee(1) tr1 by simp
          moreover have "marks (Stream_getNextResponse p # es @ ee)
                         = Stream_getNextResponse p # once (said = [] \<and> sfx) b
                           @ [Call_response ?t, Return_response Undefined] @ once sfx b'"
            using es(2) go(1) c e by simp
          ultimately show ?thesis
            using session.last_sentence [OF get \<open>has_sentence p\<close> True b b' rs(3)] rs(1)
            by metis
        next
          case False
          let ?w2 = "emit (Sleep (checkInterval (self w1))) w1"
          have run': "response_stream opts sfx tnx ka Undefined (said @ the ?t) s1 ?w2 = (r, s'', w')"
            using run get m go(2) False by (subst (asm) response_stream.simps) simp
          obtain es2 where es2: "trace w' = trace ?w2 @ es2"
            "session sfx (said @ the ?t) s1 r s'' (marks es2)"
            using "1.IH" [OF Some ps [symmetric] m [symmetric] go(2) refl False refl run'] by blast
          have "trace w' = trace w @ (Stream_getNextResponse p # es @ Sleep (checkInterval (self w1)) # es2)"
            using es2(1) tr1 by simp
          moreover have "marks (Stream_getNextResponse p # es @ Sleep (checkInterval (self w1)) # es2)
                         = Stream_getNextResponse p # once (said = [] \<and> sfx) b
                           @ [Call_response ?t, Return_response Undefined] @ marks es2"
            using es(2) go(1) c by simp
          ultimately show ?thesis
            using session.next_sentence [OF get \<open>has_sentence p\<close> False b es2(2)]
            by metis
        qed
      qed
    next
      case False
      have x: "x = Returned (Go_on Undefined said)" "w1 = ?w0"
        using m stream_sentence_idle [OF False, of opts sfx tnx res said ?w0] res by simp_all
      show ?thesis
      proof (cases "noMore p")
        case True
        let ?e = "stream_end sfx ka said w1"
        obtain ee where ee: "trace (snd ?e) = trace w1 @ ee" "chime_due (said \<noteq> [] \<and> sfx) (marks ee)"
          "fst ?e = Returned () \<or> fst ?e = Thrown"
          using stream_end_marks [of sfx ka said w1] by auto
        obtain b' where b': "is_chime b'" and e: "marks ee = once (said \<noteq> [] \<and> sfx) b'"
          using ee(2) by (rule chime_dueE)
        have rs: "s'' = s1" "w' = snd ?e" "r = Returned Undefined \<or> r = Thrown"
          using run get m x(1) True ee(3)
          by (subst (asm) response_stream.simps; cases ?e; auto)+
        have "trace w' = trace w @ (Stream_getNextResponse p # ee)"
          using rs(2) ee(1) x(2) by simp
        moreover have "marks (Stream_getNextResponse p # ee)
                       = Stream_getNextResponse p # once (said \<noteq> [] \<and> sfx) b'"
          using e by simp
        ultimately show ?thesis
          using session.end_of_stream [OF get False True b' rs(3)] rs(1) by metis
      next
        case nm: False
        let ?w2 = "emit (Sleep (checkInterval (self w1))) w1"
        have run': "response_stream opts sfx tnx ka Undefined said s1 ?w2 = (r, s'', w')"
          using run get m x(1) nm by (subst (asm) response_stream.simps) simp
        obtain es2 where es2: "trace w' = trace ?w2 @ es2" "session sfx said s1 r s'' (marks es2)"
          using "1.IH" [OF Some ps [symmetric] m [symmetric] x(1) refl nm refl run'] by blast
        have "trace w' = trace w @ (Stream_getNextResponse p # Sleep (checkInterval (self w1)) # es2)"
          using es2(1) x(2) by simp
        moreover have "marks (Stream_getNextResponse p # Sleep (checkInterval (self w1)) # es2)
                       = Stream_getNextResponse p # marks es2"
          by simp
        ultimately show ?thesis
          using session.nothing_yet [OF get False nm es2(2)] by metis
      qed
    qed
  qed
qed

subsection \<open>Reading the marks of a session\<close>

lemma view_simps [simp]:
  "dispatch_events [] = []" "dispatch_events (es @ es') = dispatch_events es @ dispatch_events es'"
  "dispatch_events (e # es) = (if is_dispatch e then e # dispatch_events es else dispatch_events es)"
  "chimes [] = []" "chimes (es @ es') = chimes es @ chimes es'"
  "chimes (e # es) = (if is_chime e then e # chimes es else chimes es)"
  "chime_view [] = []" "chime_view (es @ es') = chime_view es @ chime_view es'"
  "chime_view (e # es) = (if is_chime e \<or> is_dispatch e then e # chime_view es else chime_view es)"
  "dispatched [] = []" "dispatched (es @ es') = dispatched es @ dispatched es'"
  "dispatched (e # es) = call_of e @ dispatched es"
  "pulled [] = []" "pulled (es @ es') = pulled es @ pulled es'"
  "pulled (e # es) = pull_of e @ pulled es"
  by (simp_all add: dispatch_events_def chimes_def chime_view_def dispatched_def pulled_def)

lemma chime_facts:
  "is_chime e \<Longrightarrow> \<not> is_dispatch e"
  "is_chime e \<Longrightarrow> call_of e = []"
  "is_chime e \<Longrightarrow> pull_of e = []"
  "is_chime e \<Longrightarrow> e \<noteq> Return_response x"
  "is_chime e \<Longrightarrow> Return_response x \<noteq> e"
  by (cases e rule: is_chime.cases; simp)+

lemma getNextResponse_pending:
  assumes "getNextResponse s = Some (p, s')" and "has_sentence p \<or> \<not> noMore p"
  shows "pending s = p # pending s'" "\<not> cancelled s" "cancelled s' = cancelled s"
  using assms
  by (auto simp: getNextResponse_def has_sentence_def split: if_splits list.splits)

lemma sentences_Nil [simp]: "sentences [] = []"
  by (simp add: sentences_def)

lemma sentences_Cons [simp]:
  "sentences (p # ps) = (if has_sentence p then nextSentence p # sentences ps else sentences ps)"
  by (simp add: sentences_def)

lemma session_sequential:
  "session sfx said s r s' ms \<Longrightarrow> sequential (dispatch_events ms)"
  by (induction rule: session.induct) (simp_all add: once_def chime_facts)

lemma session_order:
  "session sfx said s r s' ms \<Longrightarrow> prefix (dispatched ms) (sentences (pending s))"
proof (induction rule: session.induct)
  case (no_answer s said)
  then show ?case by simp
next
  case (prelude_thrown s p s' b said)
  then show ?case by (simp add: once_def chime_facts)
next
  case (dispatch_open s p s' b r said)
  then show ?case by (simp add: once_def chime_facts getNextResponse_pending(1))
next
  case (interrupted s p s' b said)
  then show ?case by (simp add: once_def chime_facts getNextResponse_pending(1))
next
  case (last_sentence s p s' b b' r said)
  then show ?case by (simp add: once_def chime_facts getNextResponse_pending(1))
next
  case (next_sentence s p s' b said r s'' ms)
  then show ?case by (simp add: once_def chime_facts getNextResponse_pending(1))
next
  case (end_of_stream s p s' b' r said)
  then show ?case by (simp add: once_def chime_facts)
next
  case (nothing_yet s p s' said r s'' ms)
  then show ?case by (simp add: getNextResponse_pending(1))
qed

lemma session_break:
  "session sfx said s r s' ms \<Longrightarrow>
   (Return_response Break \<in> set ms \<longleftrightarrow> r = Returned Break)
   \<and> (r = Returned Break \<longrightarrow> cancelled s')"
proof (induction rule: session.induct)
  case (no_answer s said)
  then show ?case by simp
next
  case (prelude_thrown s p s' b said)
  then show ?case by (simp add: once_def chime_facts)
next
  case (dispatch_open s p s' b r said)
  then show ?case by (auto simp: once_def chime_facts)
next
  case (interrupted s p s' b said)
  then show ?case by (simp add: once_def chime_facts cancel_def)
next
  case (last_sentence s p s' b b' r said)
  then show ?case by (auto simp: once_def chime_facts)
next
  case (next_sentence s p s' b said r s'' ms)
  then show ?case by (simp add: once_def chime_facts)
next
  case (end_of_stream s p s' b' r said)
  then show ?case by (auto simp: once_def chime_facts)
next
  case (nothing_yet s p s' said r s'' ms)
  then show ?case by simp
qed

lemma closed_by_chime_skip [simp]:
  "\<not> is_chime e \<Longrightarrow> closed_by_chime b (e # es) = closed_by_chime b es"
  by (cases es) (auto simp: closed_by_chime_def)

lemma closed_by_chime_one [simp]:
  "is_chime e \<Longrightarrow> closed_by_chime b [e] = b"
  by (auto simp: closed_by_chime_def)

lemma closed_by_chime_Nil [simp]: "closed_by_chime b [] = (\<not> b)"
  by (simp add: closed_by_chime_def)

lemma framed_Cons [simp]: "framed b (e # es) = (is_chime e \<and> closed_by_chime b es)"
  by (simp add: framed_def)

lemma framed_Nil [simp]: "\<not> framed b []"
  by (simp add: framed_def)




subsection \<open>From the marks back to the trace of \<^verbatim>\<open>response\<close>\<close>

lemma views_of_marks [simp]:
  "dispatch_events (marks es) = dispatch_events es"
  "dispatched (marks es) = dispatched es"
  "chimes (marks es) = chimes es"
  "chime_view (marks es) = chime_view es"
  "pulled (marks es) = pulled es"
  "Return_response x \<in> set (marks es) \<longleftrightarrow> Return_response x \<in> set es"
proof -
  have d: "is_dispatch e \<Longrightarrow> is_mark e" and c: "is_chime e \<Longrightarrow> is_mark e"
    and p: "\<not> is_mark e \<Longrightarrow> pull_of e = []" and k: "\<not> is_mark e \<Longrightarrow> call_of e = []" for e
    by (cases e; simp add: is_mark_def)+
  show "dispatch_events (marks es) = dispatch_events es"
    by (induction es) (auto simp: d)
  show "dispatched (marks es) = dispatched es"
    by (induction es) (auto simp: k)
  show "chimes (marks es) = chimes es"
    by (induction es) (auto simp: c)
  show "chime_view (marks es) = chime_view es"
    by (induction es) (auto simp: c d)
  show "pulled (marks es) = pulled es"
    by (induction es) (auto simp: p)
  show "Return_response x \<in> set (marks es) \<longleftrightarrow> Return_response x \<in> set es"
    by (auto simp: marks_def)
qed

lemma new_events_append: "trace w' = trace w @ es \<Longrightarrow> new_events w w' = es"
  by (simp add: new_events_def)

text \<open>A streaming call of \<^verbatim>\<open>response\<close> is a run of the stream loop.\<close>

lemma response_streaming:
  assumes "session_stream opts w = Some s"
  obtains es s' where
    "new_events w (world_after (response opts w)) = es"
    "stream_after (response opts w) = Some s'"
    "session (chime_enabled opts w) [] s (outcome (response opts w)) s' (marks es)"
proof -
  let ?run = "response_stream (with_default_check opts) (chime_enabled opts w)
                (tts_not_xiaoai opts w) (keep_alive opts) Undefined [] s (set_responding True w)"
  obtain r s' w2 where run: "?run = (r, s', w2)" by (cases ?run)
  obtain es where es: "trace w2 = trace (set_responding True w) @ es"
    "session (chime_enabled opts w) [] s r s' (marks es)"
    using response_stream_session [OF refl run] by blast
  have "outcome (response opts w) = r" "stream_after (response opts w) = Some s'"
    "trace (world_after (response opts w)) = trace w2"
    using assms run
    by (cases r; simp add: response_def Let_def outcome_def stream_after_def world_after_def)+
  with es that show ?thesis
    by (simp add: new_events_append)
qed


subsection \<open>A stream that ends with the device to be kept awake\<close>

lemma device_calls_append [simp]:
  "device_calls (es @ es') = device_calls es @ device_calls es'"
  by (simp add: device_calls_def)

lemma stream_end_wakes:
  assumes "fst (stream_end sfx True said w) = Returned ()"
  shows "\<exists>es. trace (snd (stream_end sfx True said w)) = trace w @ es \<and> device_calls es \<noteq> []"
proof -
  let ?b = "if said \<noteq> [] \<and> sfx then beep else skip"
  obtain es where es: "trace (snd (?b w)) = trace w @ es"
    using cond_beep_marks by blast
  have ret: "fst (?b w) = Returned ()"
    using assms cond_beep_fst [of "said \<noteq> [] \<and> sfx" w]
    by (auto simp: stream_end_def fst_then_do)
  let ?e = "MiIOT_doAction (fst (wakeUpCommand (self (snd (?b w)))))
              (snd (wakeUpCommand (self (snd (?b w))))) None"
  have "trace (snd (stream_end sfx True said w)) = trace w @ (es @ [?e])"
    using ret es by (simp add: stream_end_def snd_then_do wakeUp_def)
  moreover have "device_calls (es @ [?e]) \<noteq> []"
    by (simp add: device_calls_def)
  ultimately show ?thesis by blast
qed

lemma stream_sentence_grows:
  "\<exists>es. trace (snd (stream_sentence opts sfx tnx res said p w)) = trace w @ es"
proof (cases "has_sentence p")
  case True
  then show ?thesis using stream_sentence_marks [OF True, of opts sfx tnx res said w] by blast
next
  case False
  then show ?thesis by (simp add: stream_sentence_idle)
qed

lemma response_stream_wakes:
  "ka \<Longrightarrow> res = Undefined \<Longrightarrow>
   response_stream opts sfx tnx ka res said s w = (Returned Undefined, s'', w') \<Longrightarrow>
   \<exists>es. trace w' = trace w @ es \<and> device_calls es \<noteq> []"
proof (induction opts sfx tnx ka res said s w arbitrary: s'' w' rule: response_stream.induct)
  case (1 opts sfx tnx ka res said s w)
  note ka = "1.prems"(1) and run = "1.prems"(3)
  show ?case
  proof (cases "getNextResponse s")
    case None
    then show ?thesis
      using run by (subst (asm) response_stream.simps) simp
  next
    case (Some ps)
    obtain p s1 where ps: "ps = (p, s1)" by (cases ps)
    note get = Some [unfolded ps]
    let ?w0 = "emit (Stream_getNextResponse p) w"
    obtain x w1 where m: "stream_sentence opts sfx tnx res said p ?w0 = (x, w1)"
      by (cases "stream_sentence opts sfx tnx res said p ?w0")
    obtain es1 where "trace w1 = trace ?w0 @ es1"
      using stream_sentence_grows [of opts sfx tnx res said p ?w0] m by auto
    then have tr1: "trace w1 = trace w @ (Stream_getNextResponse p # es1)"
      by simp
    have go: "\<exists>said'. x = Returned (Go_on Undefined said')"
    proof (cases "has_sentence p")
      case True
      obtain es c d where "sentence_marks said p d x"
        using stream_sentence_marks [OF True, of opts sfx tnx res said ?w0] m by auto
      moreover have "x \<noteq> Thrown" "x \<noteq> Pending" "x \<noteq> Returned Stop_break"
        using run get m by (subst (asm) response_stream.simps; auto)+
      ultimately show ?thesis by (auto simp: sentence_marks_def)
    next
      case False
      then show ?thesis
        using m stream_sentence_idle [OF False, of opts sfx tnx res said ?w0] "1.prems"(2)
        by simp
    qed
    then obtain said' where x: "x = Returned (Go_on Undefined said')" by blast
    show ?thesis
    proof (cases "noMore p")
      case True
      let ?e = "stream_end sfx True said' w1"
      have e: "fst ?e = Returned ()" "w' = snd ?e"
        using run get m x True ka
        by (subst (asm) response_stream.simps; cases ?e; auto split: completion.splits)+
      obtain ee where "trace (snd ?e) = trace w1 @ ee" "device_calls ee \<noteq> []"
        using stream_end_wakes [OF e(1)] by blast
      then have "trace w' = trace w @ (Stream_getNextResponse p # es1 @ ee)"
        "device_calls (Stream_getNextResponse p # es1 @ ee) \<noteq> []"
        using tr1 e(2) by (simp_all add: device_calls_def)
      then show ?thesis by blast
    next
      case False
      let ?w2 = "emit (Sleep (checkInterval (self w1))) w1"
      have run': "response_stream opts sfx tnx ka Undefined said' s1 ?w2
                  = (Returned Undefined, s'', w')"
        using run get m x False by (subst (asm) response_stream.simps) simp
      obtain es2 where "trace w' = trace ?w2 @ es2" "device_calls es2 \<noteq> []"
        using "1.IH" [OF Some ps [symmetric] m [symmetric] x refl False ka refl run'] by blast
      then have "trace w' = trace w @ (Stream_getNextResponse p # es1 @ Sleep (checkInterval (self w1)) # es2)"
        "device_calls (Stream_getNextResponse p # es1 @ Sleep (checkInterval (self w1)) # es2) \<noteq> []"
        using tr1 by (simp_all add: device_calls_def)
      then show ?thesis by blast
    qed
  qed
qed

text \<open>
  Whatever the cursor answers: a streaming call that is asked to keep the device awake
  and resolves to \<^verbatim>\<open>undefined\<close> has called the device, by the wake-up of line 194 at the
  latest.
\<close>

lemma stream_kept_awake_calls_device:
  assumes "session_stream opts w = Some s" and "keep_alive opts"
    and "outcome (response opts w) = Returned Undefined"
  shows "device_calls (new_events w (world_after (response opts w))) \<noteq> []"
proof -
  let ?run = "response_stream (with_default_check opts) (chime_enabled opts w)
                (tts_not_xiaoai opts w) True Undefined [] s (set_responding True w)"
  obtain r s' w2 where run: "?run = (r, s', w2)" by (cases ?run)
  have r: "r = Returned Undefined" and tr: "trace (world_after (response opts w)) = trace w2"
    using assms run
    by (cases r; simp add: response_def Let_def outcome_def world_after_def)+
  obtain es where "trace w2 = trace (set_responding True w) @ es" "device_calls es \<noteq> []"
    using response_stream_wakes [OF TrueI refl run [unfolded r]] by blast
  then show ?thesis
    using tr by (simp add: new_events_append)
qed

lemma stream_kept_awake_example:
  "device_calls (new_events demo_world (world_after (response vendor_blank demo_world))) \<noteq> []"
proof -
  have h: "session_stream vendor_blank demo_world = Some (by_lines '' '')"
    by (simp add: session_stream_def tts_not_xiaoai_def effective_tts_def requested_tts_def
          demo_defs)
  have k: "keep_alive vendor_blank"
    by (simp add: keep_alive_def demo_defs)
  have o: "outcome (response vendor_blank demo_world) = Returned Undefined"
    by (simp add: demo_defs response_defs stream_defs text_defs Let_def)
  from stream_kept_awake_calls_device [OF h k o] show ?thesis .
qed

subsection \<open>The pulls of a session\<close>

lemma getNextResponse_script:
  assumes "getNextResponse s = Some (p, s')"
  shows "\<exists>ps. script s = p # ps \<and> (\<not> noMore p \<longrightarrow> script s' = ps)"
  using assms
  by (auto simp: getNextResponse_def script_def split: if_splits list.splits)

lemma getNextResponse_None: "getNextResponse s = None \<Longrightarrow> script s = []"
  by (simp add: getNextResponse_def script_def split: if_splits list.splits)

lemma in_flight_append: "in_flight es' \<Longrightarrow> in_flight (es @ es')"
  by (cases "rev es'") (auto simp: in_flight_def split: event.splits)

lemma in_flight_Cons: "in_flight es \<Longrightarrow> in_flight (e # es)"
  using in_flight_append [of es "[e]"] by simp

lemma in_flight_call [simp]: "in_flight (es @ [Call_response t])"
  by (simp add: in_flight_def)

lemma session_pulled:
  "session sfx said s r s' ms \<Longrightarrow> prefix (pulled ms) (script s)"
proof (induction rule: session.induct)
  case (no_answer s said)
  then show ?case by simp
next
  case (prelude_thrown s p s' b said)
  from getNextResponse_script [OF prelude_thrown.hyps(1)] prelude_thrown
  show ?case by (auto simp: once_def chime_facts)
next
  case (dispatch_open s p s' b r said)
  from getNextResponse_script [OF dispatch_open.hyps(1)] dispatch_open
  show ?case by (auto simp: once_def chime_facts)
next
  case (interrupted s p s' b said)
  from getNextResponse_script [OF interrupted.hyps(1)] interrupted
  show ?case by (auto simp: once_def chime_facts)
next
  case (last_sentence s p s' b b' r said)
  from getNextResponse_script [OF last_sentence.hyps(1)] last_sentence
  show ?case by (auto simp: once_def chime_facts)
next
  case (next_sentence s p s' b said r s'' ms)
  from getNextResponse_script [OF next_sentence.hyps(1)] next_sentence
  show ?case by (auto simp: once_def chime_facts)
next
  case (end_of_stream s p s' b' r said)
  from getNextResponse_script [OF end_of_stream.hyps(1)] end_of_stream
  show ?case by (auto simp: once_def chime_facts)
next
  case (nothing_yet s p s' said r s'' ms)
  from getNextResponse_script [OF nothing_yet.hyps(1)] nothing_yet
  show ?case by auto
qed

lemma session_starts:
  "session sfx said s r s' ms \<Longrightarrow> pulled ms = [] \<longleftrightarrow> script s = []"
proof (induction rule: session.induct)
  case (no_answer s said)
  then show ?case by (simp add: getNextResponse_None)
next
  case (prelude_thrown s p s' b said)
  from getNextResponse_script [OF prelude_thrown.hyps(1)]
  show ?case by auto
next
  case (dispatch_open s p s' b r said)
  from getNextResponse_script [OF dispatch_open.hyps(1)]
  show ?case by auto
next
  case (interrupted s p s' b said)
  from getNextResponse_script [OF interrupted.hyps(1)]
  show ?case by auto
next
  case (last_sentence s p s' b b' r said)
  from getNextResponse_script [OF last_sentence.hyps(1)]
  show ?case by auto
next
  case (next_sentence s p s' b said r s'' ms)
  from getNextResponse_script [OF next_sentence.hyps(1)]
  show ?case by auto
next
  case (end_of_stream s p s' b' r said)
  from getNextResponse_script [OF end_of_stream.hyps(1)]
  show ?case by auto
next
  case (nothing_yet s p s' said r s'' ms)
  from getNextResponse_script [OF nothing_yet.hyps(1)]
  show ?case by auto
qed

lemma session_complete:
  "session sfx said s r s' ms \<Longrightarrow> r = Returned Undefined
   \<Longrightarrow> pulled ms = upto_end (script s)"
proof (induction rule: session.induct)
  case (no_answer s said)
  then show ?case by simp
next
  case (prelude_thrown s p s' b said)
  then show ?case by simp
next
  case (dispatch_open s p s' b r said)
  then show ?case by auto
next
  case (interrupted s p s' b said)
  then show ?case by simp
next
  case (last_sentence s p s' b b' r said)
  from getNextResponse_script [OF last_sentence.hyps(1)] last_sentence
  show ?case by (auto simp: once_def chime_facts)
next
  case (next_sentence s p s' b said r s'' ms)
  from getNextResponse_script [OF next_sentence.hyps(1)] next_sentence
  show ?case by (auto simp: once_def chime_facts)
next
  case (end_of_stream s p s' b' r said)
  from getNextResponse_script [OF end_of_stream.hyps(1)] end_of_stream
  show ?case by (auto simp: once_def chime_facts)
next
  case (nothing_yet s p s' said r s'' ms)
  from getNextResponse_script [OF nothing_yet.hyps(1)] nothing_yet
  show ?case by auto
qed

lemma session_all_dispatched:
  "session sfx said s r s' ms \<Longrightarrow>
   prefix (dispatched ms) (sentences (pulled ms))
   \<and> (r \<noteq> Thrown \<longrightarrow> dispatched ms = sentences (pulled ms))"
proof (induction rule: session.induct)
  case (no_answer s said)
  then show ?case by simp
next
  case (prelude_thrown s p s' b said)
  then show ?case by (simp add: once_def chime_facts)
next
  case (dispatch_open s p s' b r said)
  then show ?case by (simp add: once_def chime_facts)
next
  case (interrupted s p s' b said)
  then show ?case by (simp add: once_def chime_facts)
next
  case (last_sentence s p s' b b' r said)
  then show ?case by (simp add: once_def chime_facts)
next
  case (next_sentence s p s' b said r s'' ms)
  then show ?case by (simp add: once_def chime_facts)
next
  case (end_of_stream s p s' b' r said)
  then show ?case by (simp add: once_def chime_facts)
next
  case (nothing_yet s p s' said r s'' ms)
  then show ?case by simp
qed

lemma session_waiting:
  "session sfx said s r s' ms \<Longrightarrow> r = Pending \<Longrightarrow>
   pulled ms = script s \<or> in_flight (dispatch_events ms)"
proof (induction rule: session.induct)
  case (no_answer s said)
  then show ?case by (simp add: getNextResponse_None)
next
  case (prelude_thrown s p s' b said)
  then show ?case by simp
next
  case (dispatch_open s p s' b r said)
  have "in_flight ([] @ [Call_response (nextSentence p)])"
    by (rule in_flight_call)
  with dispatch_open show ?case by (simp add: once_def chime_facts)
next
  case (interrupted s p s' b said)
  then show ?case by simp
next
  case (last_sentence s p s' b b' r said)
  then show ?case by auto
next
  case (next_sentence s p s' b said r s'' ms)
  from getNextResponse_script [OF next_sentence.hyps(1)] next_sentence
  show ?case by (auto simp: once_def chime_facts intro!: in_flight_Cons)
next
  case (end_of_stream s p s' b' r said)
  then show ?case by auto
next
  case (nothing_yet s p s' said r s'' ms)
  from getNextResponse_script [OF nothing_yet.hyps(1)] nothing_yet
  show ?case by auto
qed

subsection \<open>Examples\<close>

text \<open>
  Normalization on Unicode white space: the ideographic space alone normalizes to the
  empty text; a line holding a no-break space is a blank line; a byte order mark in front
  and a no-break space, a space and a line separator behind are trimmed; the white space
  behind the last line feed of a blank run stays.
\<close>

lemma normalize_examples:
  "normalize [CHR 0xE3, CHR 0x80, CHR 0x80] = []"
  "normalize (''a'' @ [CHR 0x0A, CHR 0xC2, CHR 0xA0, CHR 0x0A] @ ''b'') = ''a'' @ [CHR 0x0A] @ ''b''"
  "trim ([CHR 0xEF, CHR 0xBB, CHR 0xBF] @ ''x y''
         @ [CHR 0xC2, CHR 0xA0, CHR 0x20, CHR 0xE2, CHR 0x80, CHR 0xA8]) = ''x y''"
  "normalize (''a'' @ [CHR 0x0A, CHR 0x20, CHR 0x0A, CHR 0x09] @ ''b'')
     = ''a'' @ [CHR 0x0A, CHR 0x09] @ ''b''"
  "normalize (''a'' @ [CHR 0xC2] @ ''b'') = ''a'' @ [CHR 0xC2] @ ''b''"
  by (simp_all add: text_defs)

text \<open>
  A native reply with a caller's check, through \<^verbatim>\<open>response\<close>: each interruption condition
  alone makes the call resolve to \<^verbatim>\<open>"break"\<close>; a device that plays the reply and then is
  idle lets it resolve to \<^verbatim>\<open>undefined\<close>.
\<close>

lemma interruption_examples:
  "outcome (response caller_checked (world_with [caller_tick])) = Returned Break"
  "outcome (response caller_checked (world_with [flag_tick])) = Returned Break"
  "outcome (response caller_checked (world_with [media_tick])) = Returned Break"
  "outcome (response caller_checked (world_with [playing_tick, quiet_tick])) = Returned Undefined"
  "new_events (world_with [caller_tick])
     (world_after (response caller_checked (world_with [caller_tick])))
   = [Call_response (Some ''hi''), MiIOT_doAction 5 1 (Some ''hi''), Sleep 3000,
      MiNA_getStatus, Call_hasNewMsg True, Return_response Break]"
  "new_events (world_with [playing_tick, quiet_tick])
     (world_after (response caller_checked (world_with [playing_tick, quiet_tick])))
   = [Call_response (Some ''hi''), MiIOT_doAction 5 1 (Some ''hi''), Sleep 3000,
      MiNA_getStatus, Call_hasNewMsg False, Sleep 1000,
      MiNA_getStatus, Call_hasNewMsg False, Return_response Undefined]"
  by (simp_all add: demo_defs response_defs text_defs Let_def new_events_def)

section \<open>The claims\<close>

subsection \<open>C1: no vendor endpoint\<close>

text \<open>
  C1 says that a text request for the vendor voice, with no vendor endpoint configured,
  is served as a native one: one native TTS action with the normalized text, no chime,
  and never a vendor URL. \<^verbatim>\<open>response\<close> does force its own local \<^verbatim>\<open>tts\<close> to the native
  provider (lines 141 to 144), but it hands the untouched options to \<^verbatim>\<open>_response\<close>
  (line 202), which reads the provider from them again (line 224). On the request for
  \<^verbatim>\<open>"hi"\<close> with the vendor voice and no endpoint, the call plays the chime, unwakes the
  device and plays a vendor URL built from the word \<^verbatim>\<open>undefined\<close>; it issues no TTS action
  with the text.
\<close>

theorem C1_unset_endpoint_plays_vendor_url:
  "TTS_DOUBAO (env bare_world) = None
   \<and> new_events bare_world (world_after (response vendor_hi bare_world))
     = [Call_response (Some ''hi''),
        MiNA_play Beep (Args_url (Some ''beep.mp3'')),
        MiNA_pause,
        MiIOT_doAction 5 1 (Some ''ok''),
        MiNA_play Reply (Args_url (Some
          ''undefined?speaker=zh_female_maomao_conversation_wvae_bigtts&text=hi'')),
        Sleep 3000,
        MiNA_getStatus,
        Call_hasNewMsg False,
        MiNA_play Beep (Args_url (Some ''beep.mp3'')),
        Return_response Undefined]"
  by (simp add: demo_defs response_defs text_defs Let_def new_events_def)

theorem C1_vendor_url_witness:
  "MiNA_play Reply (Args_url (Some
      ''undefined?speaker=zh_female_maomao_conversation_wvae_bigtts&text=hi''))
     \<in> set (new_events bare_world (world_after (response vendor_hi bare_world)))
   \<and> MiIOT_doAction 5 1 (Some ''hi'')
     \<notin> set (new_events bare_world (world_after (response vendor_hi bare_world)))"
  using C1_unset_endpoint_plays_vendor_url by simp

subsection \<open>C2: when the boundary chime plays\<close>




subsection \<open>C3: the flag \<^verbatim>\<open>responding\<close> at the exits\<close>

text \<open>
  C3 as stated does not hold: the flag is not cleared when a device call throws. The
  native request for \<^verbatim>\<open>"hi"\<close> whose TTS action throws leaves \<^verbatim>\<open>response\<close> by the exception
  with the flag still set; nothing in the class catches an exception.
\<close>

theorem C3_counterexample:
  "outcome (response native_hi (demo_world\<lparr>fault := fault_at 1\<rparr>)) = Thrown
   \<and> responding (self (world_after (response native_hi (demo_world\<lparr>fault := fault_at 1\<rparr>))))"
  by (simp add: demo_defs response_defs Let_def text_defs)

text \<open>
  C3, amended: \<^verbatim>\<open>response\<close> sets the flag at the start; when the call returns, completed
  or interrupted, the flag is cleared; when the call is left by a thrown device error,
  or is still running, the flag is still set, unless another session wrote it meanwhile.
\<close>

theorem C3_flag_on_exit:
  "case outcome (response opts w) of
     Returned x \<Rightarrow> \<not> responding (self (world_after (response opts w)))
   | Thrown \<Rightarrow> undisturbed (ticks w) \<longrightarrow> responding (self (world_after (response opts w)))
   | Pending \<Rightarrow> undisturbed (ticks w) \<longrightarrow> responding (self (world_after (response opts w)))"
proof -
  let ?w1 = "set_responding True w"
  have held: "undisturbed (ticks w) \<Longrightarrow> flag_held ?w1"
    by (simp add: flag_held_def)
  show ?thesis
  proof (cases "session_stream opts w")
    case None
    let ?c = "call_response (with_default_check opts) ?w1"
    have "undisturbed (ticks w) \<Longrightarrow> flag_held (snd ?c)"
      using preservesD [OF preserves_call_response] held by blast
    then show ?thesis
      using None
      by (cases ?c)
         (auto simp: response_def Let_def outcome_def world_after_def flag_held_def
               split: completion.splits)
  next
    case (Some s)
    let ?c = "response_stream (with_default_check opts) (chime_enabled opts w)
                (tts_not_xiaoai opts w) (keep_alive opts) Undefined [] s ?w1"
    have "undisturbed (ticks w) \<Longrightarrow> flag_held (snd (snd ?c))"
      using response_stream_flag_held held by blast
    then show ?thesis
      using Some
      by (cases ?c)
         (auto simp: response_def Let_def outcome_def world_after_def flag_held_def
               split: completion.splits)
  qed
qed

theorem C3_witness:
  "\<not> responding (self (world_after (response native_hi demo_world)))
   \<and> responding (self (world_after (response native_hi (demo_world\<lparr>fault := fault_at 1\<rparr>))))"
proof -
  have a: "outcome (response native_hi demo_world) = Returned Undefined"
    by (simp add: demo_defs response_defs Let_def text_defs)
  have b: "outcome (response native_hi (demo_world\<lparr>fault := fault_at 1\<rparr>)) = Thrown"
    by (simp add: demo_defs response_defs Let_def text_defs)
  have u: "undisturbed (ticks demo_world)"
    "undisturbed (ticks (demo_world\<lparr>fault := fault_at 1\<rparr>))"
    by (simp_all add: undisturbed_def demo_defs)
  show ?thesis
    using C3_flag_on_exit [of native_hi demo_world]
      C3_flag_on_exit [of native_hi "demo_world\<lparr>fault := fault_at 1\<rparr>"] a b u
    by simp
qed

subsection \<open>C4: the order of the interruption conditions\<close>

text \<open>
  C4: at every pass of the polling loop whose device read returns, the caller's check is
  called first, right after the read and whatever the flag and the device say: the pass
  adds the read and the call of \<^verbatim>\<open>hasNewMsg\<close> with its answer to the trace, and consumes
  the tick. If the caller's check answers true, or the flag \<^verbatim>\<open>responding\<close> is cleared (by
  another session during the read, or before), or the device, read by \<^verbatim>\<open>getStatus\<close>,
  reports the status playing with a truthy media type, the loop returns \<^verbatim>\<open>"break"\<close> at
  this pass, without sleeping and without a further read, and \<^verbatim>\<open>play\<close> resolves to
  \<^verbatim>\<open>"break"\<close> with no closing chime and no wake-up; the caller's answer true alone decides
  this, whatever the flag and the device say. If none of the three holds, the pass does
  not return \<^verbatim>\<open>"break"\<close>: the loop is left normally when the device does not report
  playing, and sleeps and goes to the next pass when it does.
\<close>

theorem C4_interruption_order:
  assumes "\<not> fault w (length (trace w))"
  shows
    "ticks (consult opts t (emit (poll_event (self w)) (land t ts w))) = ts
     \<and> new_events w (consult opts t (emit (poll_event (self w)) (land t ts w)))
         = poll_event (self w)
           # (case opt_hasNewMsg opts of
                None \<Rightarrow> []
              | Some Default_hasNewMsg \<Rightarrow> [Call_hasNewMsg False]
              | Some Caller_hasNewMsg \<Rightarrow> [Call_hasNewMsg (new_msg t)])
     \<and> (opt_hasNewMsg opts = Some Caller_hasNewMsg \<and> new_msg t
        \<longrightarrow> wait_playing opts (t # ts) w
            = (Returned Return_break, consult opts t (emit (poll_event (self w)) (land t ts w))))
     \<and> (if (opt_hasNewMsg opts = Some Caller_hasNewMsg \<and> new_msg t)
           \<or> (case flag_write t of None \<Rightarrow> \<not> responding (self w) | Some b \<Rightarrow> \<not> b)
           \<or> (playingCommand (self w) = None
              \<and> (case status_reply t of
                    None \<Rightarrow> False
                  | Some r \<Rightarrow> st_status r = Some ''playing'' \<and> truthy (st_media_type r)))
        then wait_playing opts (t # ts) w
               = (Returned Return_break,
                  consult opts t (emit (poll_event (self w)) (land t ts w)))
             \<and> (ticks w = t # ts
                \<longrightarrow> await_playing opts playSFX keepAlive w
                    = (Returned Break,
                       consult opts t (emit (poll_event (self w)) (land t ts w))))
        else fst (wait_playing opts [t] w) \<noteq> Returned Return_break
             \<and> wait_playing opts (t # ts) w
               = (if (case playingCommand (self w) of
                        Some (siid, piid, v) \<Rightarrow> prop_reply t = JNum v
                      | None \<Rightarrow>
                          (case status_reply t of
                             None \<Rightarrow> False
                           | Some r \<Rightarrow> st_status r = Some ''playing''))
                  then wait_playing opts ts
                         (emit (Sleep (checkInterval (self w)))
                            (consult opts t (emit (poll_event (self w)) (land t ts w))))
                  else (Returned Loop_done,
                        consult opts t (emit (poll_event (self w)) (land t ts w)))))"
proof -
  let ?w' = "consult opts t (emit (poll_event (self w)) (land t ts w))"
  let ?p = "derive_playing (self w) t"
  have events: "new_events w ?w'
      = poll_event (self w)
        # (case opt_hasNewMsg opts of
             None \<Rightarrow> []
           | Some Default_hasNewMsg \<Rightarrow> [Call_hasNewMsg False]
           | Some Caller_hasNewMsg \<Rightarrow> [Call_hasNewMsg (new_msg t)])"
    by (simp add: new_events_def asked_def call_hasNewMsg_def
          split: option.splits callback.splits)
  have caller: "call_hasNewMsg opts t
      \<longleftrightarrow> opt_hasNewMsg opts = Some Caller_hasNewMsg \<and> new_msg t"
    by (simp add: call_hasNewMsg_def split: option.splits callback.splits)
  have flag: "responding (self (emit (poll_event (self w)) (land t ts w)))
      \<longleftrightarrow> \<not> (case flag_write t of None \<Rightarrow> \<not> responding (self w) | Some b \<Rightarrow> \<not> b)"
    by (simp split: option.splits)
  have media: "status ?p = ''playing'' \<and> truthy (media_type ?p)
      \<longleftrightarrow> playingCommand (self w) = None
          \<and> (case status_reply t of
                None \<Rightarrow> False
              | Some r \<Rightarrow> st_status r = Some ''playing'' \<and> truthy (st_media_type r))"
    by (auto simp: derive_playing_def idle_def split: option.splits prod.splits)
  have playing: "status ?p = ''playing''
      \<longleftrightarrow> (case playingCommand (self w) of
             Some (siid, piid, v) \<Rightarrow> prop_reply t = JNum v
           | None \<Rightarrow>
               (case status_reply t of
                  None \<Rightarrow> False
                | Some r \<Rightarrow> st_status r = Some ''playing''))"
    by (auto simp: derive_playing_def idle_def split: option.splits prod.splits)
  define stop where
    "stop \<longleftrightarrow> interruption (call_hasNewMsg opts t)
        (responding (self (emit (poll_event (self w)) (land t ts w)))) ?p \<noteq> None"
  define plays where "plays \<longleftrightarrow> status ?p = ''playing''"
  have decide: "stop
      \<longleftrightarrow> (opt_hasNewMsg opts = Some Caller_hasNewMsg \<and> new_msg t)
          \<or> (case flag_write t of None \<Rightarrow> \<not> responding (self w) | Some b \<Rightarrow> \<not> b)
          \<or> (playingCommand (self w) = None
             \<and> (case status_reply t of
                   None \<Rightarrow> False
                 | Some r \<Rightarrow> st_status r = Some ''playing'' \<and> truthy (st_media_type r)))"
    unfolding stop_def interruption_def caller flag media by auto
  have step: "wait_playing opts (t # ts') w
      = (if stop
         then (Returned Return_break, consult opts t (emit (poll_event (self w)) (land t ts' w)))
         else if \<not> plays
         then (Returned Loop_done, consult opts t (emit (poll_event (self w)) (land t ts' w)))
         else wait_playing opts ts'
                (emit (Sleep (checkInterval (self w)))
                   (consult opts t (emit (poll_event (self w)) (land t ts' w)))))" for ts'
    unfolding stop_def plays_def using assms by (simp add: device_def derive_playing_def)
  let ?cond = "(opt_hasNewMsg opts = Some Caller_hasNewMsg \<and> new_msg t)
          \<or> (case flag_write t of None \<Rightarrow> \<not> responding (self w) | Some b \<Rightarrow> \<not> b)
          \<or> (playingCommand (self w) = None
             \<and> (case status_reply t of
                   None \<Rightarrow> False
                 | Some r \<Rightarrow> st_status r = Some ''playing'' \<and> truthy (st_media_type r)))"
  have yes: stop if ?cond
    using that decide by blast
  have no: "\<not> stop" if "\<not> ?cond"
    using that decide by blast
  have brk: "wait_playing opts (t # ts) w = (Returned Return_break, ?w')" if ?cond
    by (subst step) (simp add: yes [OF that])
  have await: "await_playing opts playSFX keepAlive w = (Returned Break, ?w')"
    if ?cond "ticks w = t # ts"
    using brk [OF that(1)] that(2) by (simp add: await_playing_def del: wait_playing.simps)
  have stay: "fst (wait_playing opts [t] w) \<noteq> Returned Return_break" if "\<not> ?cond"
    by (subst step) (simp add: no [OF that])
  have go_on: "wait_playing opts (t # ts) w
      = (if (case playingCommand (self w) of
               Some (siid, piid, v) \<Rightarrow> prop_reply t = JNum v
             | None \<Rightarrow>
                 (case status_reply t of
                    None \<Rightarrow> False
                  | Some r \<Rightarrow> st_status r = Some ''playing''))
         then wait_playing opts ts (emit (Sleep (checkInterval (self w))) ?w')
         else (Returned Loop_done, ?w'))" if "\<not> ?cond"
    by (subst step) (simp add: no [OF that] plays_def playing)
  show ?thesis
  proof (intro conjI)
    show "ticks ?w' = ts"
      by simp
    show "opt_hasNewMsg opts = Some Caller_hasNewMsg \<and> new_msg t
          \<longrightarrow> wait_playing opts (t # ts) w = (Returned Return_break, ?w')"
      using brk by blast
  next
    show "new_events w ?w'
      = poll_event (self w)
        # (case opt_hasNewMsg opts of
             None \<Rightarrow> []
           | Some Default_hasNewMsg \<Rightarrow> [Call_hasNewMsg False]
           | Some Caller_hasNewMsg \<Rightarrow> [Call_hasNewMsg (new_msg t)])"
      by (rule events)
  next
    show "if ?cond
          then wait_playing opts (t # ts) w = (Returned Return_break, ?w')
               \<and> (ticks w = t # ts
                  \<longrightarrow> await_playing opts playSFX keepAlive w = (Returned Break, ?w'))
          else fst (wait_playing opts [t] w) \<noteq> Returned Return_break
               \<and> wait_playing opts (t # ts) w
                 = (if (case playingCommand (self w) of
                          Some (siid, piid, v) \<Rightarrow> prop_reply t = JNum v
                        | None \<Rightarrow>
                            (case status_reply t of
                               None \<Rightarrow> False
                             | Some r \<Rightarrow> st_status r = Some ''playing''))
                    then wait_playing opts ts (emit (Sleep (checkInterval (self w))) ?w')
                    else (Returned Loop_done, ?w'))"
    proof (cases ?cond)
      case True
      show ?thesis
        unfolding if_P [OF True] using brk [OF True] await [OF True] by blast
    next
      case False
      show ?thesis
        unfolding if_not_P [OF False] using stay [OF False] go_on [OF False] by blast
    qed
  qed
qed

text \<open>
  One condition at a time, in the middle of a response and with a caller's check: each
  of the three ends the loop at the first pass, and a pass at which the device plays the
  reply and nothing interrupts goes on. With all three at once the call of the caller's
  check is in the trace, answered true, behind the read.
\<close>

theorem C4_witness:
  "fst (wait_playing caller_checked [caller_tick, quiet_tick] active_world)
     = Returned Return_break
   \<and> fst (wait_playing caller_checked [flag_tick, quiet_tick] active_world)
     = Returned Return_break
   \<and> fst (wait_playing caller_checked [media_tick, quiet_tick] active_world)
     = Returned Return_break
   \<and> wait_playing caller_checked [playing_tick, quiet_tick] active_world
     = (Returned Loop_done,
        active_world\<lparr>ticks := [],
          trace := [MiNA_getStatus, Call_hasNewMsg False, Sleep 1000,
                    MiNA_getStatus, Call_hasNewMsg False]\<rparr>)
   \<and> wait_playing caller_checked [stormy_tick, quiet_tick] active_world
     = (Returned Return_break,
        active_world\<lparr>ticks := [quiet_tick],
          self := demo_speaker\<lparr>responding := False\<rparr>,
          trace := [MiNA_getStatus, Call_hasNewMsg True]\<rparr>)"
proof -
  have h: "\<not> fault active_world (length (trace active_world))"
    by (simp add: demo_defs)
  have h': "\<not> fault w' (length (trace w'))"
    if "w' = emit (Sleep (checkInterval (self active_world)))
               (consult caller_checked playing_tick
                  (emit (poll_event (self active_world))
                     (land playing_tick [quiet_tick] active_world)))" for w'
    using that by (simp add: demo_defs)
  have a: "fst (wait_playing caller_checked [caller_tick, quiet_tick] active_world)
      = Returned Return_break"
    using C4_interruption_order [OF h, of caller_checked caller_tick "[quiet_tick]"]
    by (simp add: demo_defs)
  have b: "fst (wait_playing caller_checked [flag_tick, quiet_tick] active_world)
      = Returned Return_break"
    using C4_interruption_order [OF h, of caller_checked flag_tick "[quiet_tick]"]
    by (simp add: demo_defs)
  have c: "fst (wait_playing caller_checked [media_tick, quiet_tick] active_world)
      = Returned Return_break"
    using C4_interruption_order [OF h, of caller_checked media_tick "[quiet_tick]"]
    by (simp add: demo_defs)
  have d: "wait_playing caller_checked [playing_tick, quiet_tick] active_world
      = (Returned Loop_done,
         active_world\<lparr>ticks := [],
           trace := [MiNA_getStatus, Call_hasNewMsg False, Sleep 1000,
                     MiNA_getStatus, Call_hasNewMsg False]\<rparr>)"
    using C4_interruption_order [OF h, of caller_checked playing_tick "[quiet_tick]"]
      C4_interruption_order [OF h' [OF refl], of caller_checked quiet_tick "[]"]
    by (simp add: demo_defs poll_event_def consult_def asked_def call_hasNewMsg_def
          emit_def land_def)
  have e: "wait_playing caller_checked [stormy_tick, quiet_tick] active_world
      = (Returned Return_break,
         active_world\<lparr>ticks := [quiet_tick],
           self := demo_speaker\<lparr>responding := False\<rparr>,
           trace := [MiNA_getStatus, Call_hasNewMsg True]\<rparr>)"
    using C4_interruption_order [OF h, of caller_checked stormy_tick "[quiet_tick]"]
    by (simp add: demo_defs poll_event_def consult_def asked_def call_hasNewMsg_def
          emit_def land_def)
  from a b c d e show ?thesis by blast
qed

subsection \<open>C5: switching the voice without a catalogue\<close>

text \<open>
  C5 as stated does not hold. When the fetch of the catalogue fails, the call throws: the
  \<^verbatim>\<open>await\<close> of line 330 stands in no \<^verbatim>\<open>try\<close>. And with no endpoint configured the call still
  succeeds on a catalogue it holds from an earlier call.
\<close>

theorem C5_counterexample:
  "fst (switchDefaultSpeaker ''Maomao'' failing_fetch_world) = Thrown
   \<and> SPEAKERS_DOUBAO (env cached_world) = None
   \<and> fst (switchDefaultSpeaker ''Maomao'' cached_world) = Returned True
   \<and> defaultSpeaker (self (snd (switchDefaultSpeaker ''Maomao'' cached_world))) = ''zh_female_maomao_x''"
  by (simp add: switchDefaultSpeaker_def then_do_def load_speakers_def emit_def matches_def
        demo_defs)

text \<open>
  C5, amended: on a call that holds no catalogue yet, if the catalogue endpoint is not
  configured or the fetched value is not a list, the call returns false and leaves the
  default voice as it was; if the fetch fails, the call throws, and the default voice is
  as it was.
\<close>

theorem C5_switch_without_catalog:
  assumes "doubaoSpeakers (self w) = None"
  shows "(\<not> truthy_str (SPEAKERS_DOUBAO (env w)) \<or> fetch_json w = Json_other
          \<longrightarrow> fst (switchDefaultSpeaker v w) = Returned False
              \<and> defaultSpeaker (self (snd (switchDefaultSpeaker v w))) = defaultSpeaker (self w))
       \<and> (truthy_str (SPEAKERS_DOUBAO (env w)) \<and> fetch_json w = Fetch_failed
          \<longrightarrow> fst (switchDefaultSpeaker v w) = Thrown
              \<and> defaultSpeaker (self (snd (switchDefaultSpeaker v w))) = defaultSpeaker (self w))"
  using assms
  by (auto simp: switchDefaultSpeaker_def then_do_def load_speakers_def emit_def)

theorem C5_witness:
  "fst (switchDefaultSpeaker ''Maomao'' bare_world) = Returned False
   \<and> defaultSpeaker (self (snd (switchDefaultSpeaker ''Maomao'' bare_world))) = defaultSpeaker demo_speaker
   \<and> fst (switchDefaultSpeaker ''Maomao'' demo_world) = Returned False
   \<and> fst (switchDefaultSpeaker ''Maomao'' failing_fetch_world) = Thrown
   \<and> defaultSpeaker (self (snd (switchDefaultSpeaker ''Maomao'' failing_fetch_world))) = defaultSpeaker demo_speaker"
  using C5_switch_without_catalog [of bare_world "''Maomao''"]
        C5_switch_without_catalog [of demo_world "''Maomao''"]
        C5_switch_without_catalog [of failing_fetch_world "''Maomao''"]
  by (simp add: demo_defs)

subsection \<open>C6: switching the voice with a catalogue\<close>

text \<open>
  C6: with a catalogue loaded (held from an earlier call, or fetched by this one), if
  some entry matches the argument on its name or on its voice id, the default voice
  becomes the voice id of the first such entry and the call returns true; if none
  matches, the default voice is as it was and the call returns false.
\<close>

theorem C6_switch_lookup:
  assumes "doubaoSpeakers (self w) = Some l
           \<or> (doubaoSpeakers (self w) = None \<and> truthy_str (SPEAKERS_DOUBAO (env w))
              \<and> fetch_json w = Json_array l)"
  shows "if \<exists>e \<in> set l. matches v e
         then \<exists>e \<in> set l. matches v e \<and> find (matches v) l = Some e
                \<and> fst (switchDefaultSpeaker v w) = Returned True
                \<and> defaultSpeaker (self (snd (switchDefaultSpeaker v w))) = speaker e
         else fst (switchDefaultSpeaker v w) = Returned False
              \<and> defaultSpeaker (self (snd (switchDefaultSpeaker v w))) = defaultSpeaker (self w)"
proof -
  have loaded: "\<exists>w1. load_speakers w = (Returned (), w1) \<and> doubaoSpeakers (self w1) = Some l
                  \<and> defaultSpeaker (self w1) = defaultSpeaker (self w)"
    using assms by (auto simp: load_speakers_def emit_def)
  then obtain w1 where w1: "load_speakers w = (Returned (), w1)"
    "doubaoSpeakers (self w1) = Some l" "defaultSpeaker (self w1) = defaultSpeaker (self w)"
    by blast
  show ?thesis
  proof (cases "find (matches v) l")
    case None
    then have "\<not> (\<exists>e \<in> set l. matches v e)"
      by (simp add: find_None_iff)
    with None w1 show ?thesis
      by (simp add: switchDefaultSpeaker_def then_do_Returned)
  next
    case (Some e)
    then have "e \<in> set l" "matches v e"
      by (auto simp: find_Some_iff)
    with Some w1 show ?thesis
      by (auto simp: switchDefaultSpeaker_def then_do_Returned)
  qed
qed

theorem C6_witness:
  "fst (switchDefaultSpeaker ''Maomao'' catalog_world) = Returned True
   \<and> defaultSpeaker (self (snd (switchDefaultSpeaker ''Maomao'' catalog_world)))
       = ''zh_female_maomao_x''
   \<and> fst (switchDefaultSpeaker ''Unknown'' catalog_world) = Returned False
   \<and> defaultSpeaker (self (snd (switchDefaultSpeaker ''Unknown'' catalog_world)))
       = defaultSpeaker (self catalog_world)"
proof -
  have h: "doubaoSpeakers (self catalog_world) = Some [maomao]
           \<or> (doubaoSpeakers (self catalog_world) = None
              \<and> truthy_str (SPEAKERS_DOUBAO (env catalog_world))
              \<and> fetch_json catalog_world = Json_array [maomao])"
    by (simp add: demo_defs)
  have m: "matches ''Maomao'' maomao" "\<not> matches ''Unknown'' maomao" "speaker maomao = ''zh_female_maomao_x''"
    by (simp_all add: matches_def maomao_def)
  from C6_switch_lookup [OF h, of "''Maomao''"] C6_switch_lookup [OF h, of "''Unknown''"] m
  show ?thesis by simp
qed

subsection \<open>C7: the dispatches of a streaming session\<close>

text \<open>
  C7: in a streaming session the dispatches come one at a time, each entry of
  \<^verbatim>\<open>_response\<close> followed by its exit before the next entry; the texts dispatched are, in
  order, a prefix of the sentences the cursor holds; an exit with \<^verbatim>\<open>"break"\<close> is followed
  by the cancellation of the cursor and by no further dispatch, \<^verbatim>\<open>response\<close> then resolves to
  \<^verbatim>\<open>"break"\<close>, and the cursor is left cancelled. The loop pulls the answers of the cursor in
  their order, the first one whenever there is one, and dispatches the sentence of every
  answer pulled, in the order pulled: all of them unless the call throws, and then all
  but possibly the last. A call that resolves to \<^verbatim>\<open>undefined\<close> has pulled every answer up to
  the one that reports no more, and so has dispatched every sentence up to there. A call
  that is still waiting has pulled every answer the cursor holds, or has a dispatch in
  flight.
\<close>

theorem C7_dispatches_in_order:
  assumes "session_stream opts w = Some s"
  shows "sequential (dispatch_events (new_events w (world_after (response opts w))))
       \<and> prefix (dispatched (new_events w (world_after (response opts w))))
           (sentences (pending s))
       \<and> (Return_response Break \<in> set (new_events w (world_after (response opts w)))
            \<longleftrightarrow> outcome (response opts w) = Returned Break)
       \<and> (outcome (response opts w) = Returned Break
            \<longrightarrow> (\<exists>s'. stream_after (response opts w) = Some s' \<and> cancelled s'))
       \<and> prefix (pulled (new_events w (world_after (response opts w)))) (script s)
       \<and> (pulled (new_events w (world_after (response opts w))) = [] \<longleftrightarrow> script s = [])
       \<and> prefix (dispatched (new_events w (world_after (response opts w))))
           (sentences (pulled (new_events w (world_after (response opts w)))))
       \<and> (outcome (response opts w) \<noteq> Thrown
            \<longrightarrow> dispatched (new_events w (world_after (response opts w)))
                = sentences (pulled (new_events w (world_after (response opts w)))))
       \<and> (outcome (response opts w) = Returned Undefined
            \<longrightarrow> pulled (new_events w (world_after (response opts w))) = upto_end (script s))
       \<and> (outcome (response opts w) = Pending
            \<longrightarrow> pulled (new_events w (world_after (response opts w))) = script s
                \<or> in_flight (dispatch_events (new_events w (world_after (response opts w)))))"
proof -
  obtain es s' where new: "new_events w (world_after (response opts w)) = es"
    and after: "stream_after (response opts w) = Some s'"
    and run: "session (chime_enabled opts w) [] s (outcome (response opts w)) s' (marks es)"
    using assms by (rule response_streaming)
  show ?thesis
    using session_sequential [OF run] session_order [OF run] session_break [OF run] after
      session_pulled [OF run] session_starts [OF run] session_all_dispatched [OF run]
      session_complete [OF run] session_waiting [OF run]
    unfolding new by simp
qed

text \<open>
  The text of two paragraphs for the vendor voice, nothing interrupting: the call
  resolves to \<^verbatim>\<open>undefined\<close> and has dispatched both sentences, in order. The same text with
  the caller reporting a new message at the first poll: the call resolves to \<^verbatim>\<open>"break"\<close>,
  only the first sentence was dispatched and the cursor is cancelled.
\<close>

theorem C7_witness:
  "outcome (response vendor_two demo_world) = Returned Undefined
   \<and> dispatched (new_events demo_world (world_after (response vendor_two demo_world)))
     = [Some ''Hello.'', Some ''World.'']
   \<and> sequential (dispatch_events
        (new_events demo_world (world_after (response vendor_two demo_world))))
   \<and> outcome (response vendor_two_checked busy_world) = Returned Break
   \<and> dispatched (new_events busy_world (world_after (response vendor_two_checked busy_world)))
     = [Some ''Hello.'']
   \<and> (\<exists>s'. stream_after (response vendor_two_checked busy_world) = Some s' \<and> cancelled s')"
proof -
  have h: "session_stream vendor_two demo_world = Some (by_lines two_paragraphs)"
    by (simp add: session_stream_def tts_not_xiaoai_def effective_tts_def requested_tts_def
          demo_defs)
  have s: "sentences (upto_end (script (by_lines two_paragraphs)))
      = [Some ''Hello.'', Some ''World.'']"
    by (simp add: by_lines_def two_paragraphs_def has_sentence_def script_def text_defs)
  have o: "outcome (response vendor_two demo_world) = Returned Undefined"
    by (simp add: demo_defs response_defs stream_defs text_defs Let_def)
  have h': "session_stream vendor_two_checked busy_world = Some (by_lines two_paragraphs)"
    by (simp add: session_stream_def tts_not_xiaoai_def effective_tts_def requested_tts_def
          demo_defs)
  have o': "outcome (response vendor_two_checked busy_world) = Returned Break"
    by (simp add: demo_defs response_defs stream_defs text_defs Let_def)
  have p': "sentences (pulled (new_events busy_world
        (world_after (response vendor_two_checked busy_world)))) = [Some ''Hello.'']"
    by (simp add: demo_defs response_defs stream_defs text_defs Let_def new_events_def
          has_sentence_def)
  have first: "outcome (response vendor_two demo_world) = Returned Undefined
     \<and> dispatched (new_events demo_world (world_after (response vendor_two demo_world)))
       = [Some ''Hello.'', Some ''World.'']
     \<and> sequential (dispatch_events
          (new_events demo_world (world_after (response vendor_two demo_world))))"
    using C7_dispatches_in_order [OF h] o s by simp
  have second: "outcome (response vendor_two_checked busy_world) = Returned Break
     \<and> dispatched (new_events busy_world (world_after (response vendor_two_checked busy_world)))
       = [Some ''Hello.'']
     \<and> (\<exists>s'. stream_after (response vendor_two_checked busy_world) = Some s' \<and> cancelled s')"
    using C7_dispatches_in_order [OF h'] o' p' by simp
  from first second show ?thesis by blast
qed

subsection \<open>C8: a request with no payload\<close>

text \<open>
  C8 as stated does not hold. \<^verbatim>\<open>response\<close> builds a stream from any non-empty text for the
  vendor voice (lines 146 to 152), blank or not, and the stream loop wakes the device
  when it ends if that was asked for (line 193). The request for the text of one space,
  vendor voice, keep awake, issues the wake-up action. This does not hang on how the text
  is split: by \<open>stream_kept_awake_calls_device\<close> every such call that resolves to
  \<^verbatim>\<open>undefined\<close> has called the device.
\<close>

theorem C8_counterexample:
  "opt_stream vendor_blank = None \<and> opt_audio vendor_blank = None
   \<and> normalize (the (opt_text vendor_blank)) = []
   \<and> device_calls (new_events demo_world (world_after (response vendor_blank demo_world)))
       = [MiIOT_doAction 5 3 None]"
  by (simp add: demo_defs response_defs stream_defs text_defs Let_def
        new_events_def device_calls_def)

text \<open>
  C8, amended: for a request with no audio URL, no stream and a text that is absent or
  empty after normalization (a text of white space only, Unicode white space included), and for which \<^verbatim>\<open>response\<close> builds no stream (the text is
  absent or empty, or the effective provider is the native one), the call returns
  \<^verbatim>\<open>undefined\<close> and issues no device call: it only enters and leaves \<^verbatim>\<open>_response\<close>.
\<close>

theorem C8_no_payload_no_device_call:
  assumes "opt_stream opts = None"
    and "\<not> truthy_str (opt_audio opts)"
    and "\<not> truthy_str (map_option normalize (opt_text opts))"
    and "\<not> truthy_str (opt_text opts) \<or> effective_tts opts w = xiaoai"
  shows "outcome (response opts w) = Returned Undefined
       \<and> device_calls (new_events w (world_after (response opts w))) = []
       \<and> new_events w (world_after (response opts w))
           = [Call_response (opt_text opts), Return_response Undefined]"
  using assms
  by (auto simp: response_def Let_def session_stream_def tts_not_xiaoai_def
        call_response_def private_response_def with_default_check_def
        outcome_def world_after_def new_events_def device_calls_def)

text \<open>
  The native voice and a text of one space, and the native voice and a text that is the
  ideographic space U+3000 alone, the vendor endpoint configured or not.
\<close>

theorem C8_witness:
  "outcome (response native_blank bare_world) = Returned Undefined
   \<and> device_calls (new_events bare_world (world_after (response native_blank bare_world))) = []
   \<and> outcome (response native_wide_blank demo_world) = Returned Undefined
   \<and> device_calls
        (new_events demo_world (world_after (response native_wide_blank demo_world))) = []"
proof -
  have h1: "opt_stream native_blank = None"
    and h2: "\<not> truthy_str (opt_audio native_blank)"
    and h3: "\<not> truthy_str (map_option normalize (opt_text native_blank))"
    and h4: "\<not> truthy_str (opt_text native_blank) \<or> effective_tts native_blank bare_world = xiaoai"
    by (simp_all add: demo_defs text_defs effective_tts_def)
  have k1: "opt_stream native_wide_blank = None"
    and k2: "\<not> truthy_str (opt_audio native_wide_blank)"
    and k3: "\<not> truthy_str (map_option normalize (opt_text native_wide_blank))"
    and k4: "\<not> truthy_str (opt_text native_wide_blank)
             \<or> effective_tts native_wide_blank demo_world = xiaoai"
    by (simp_all add: demo_defs text_defs effective_tts_def requested_tts_def)
  from C8_no_payload_no_device_call [OF h1 h2 h3 h4]
    C8_no_payload_no_device_call [OF k1 k2 k3 k4]
  show ?thesis by blast
qed

subsection \<open>C9: with a property command, no interruption by the device\<close>

text \<open>
  C9: with a property command configured, the state derived at a tick is
  \<^verbatim>\<open>{status: "playing"}\<close> or \<^verbatim>\<open>{status: "idle"}\<close> with no media type, the third condition
  never decides, and \<^verbatim>\<open>_response\<close> does not resolve to \<^verbatim>\<open>"break"\<close> as long as the flag is
  set, no tick clears it and the caller's check answers false.
\<close>

theorem C9_property_command_hides_media:
  assumes "playingCommand (self w) = Some pc"
  shows "(derive_playing (self w) t = \<lparr>status = ''playing'', media_type = JUndefined\<rparr>
          \<or> derive_playing (self w) t = idle)
       \<and> interruption a b (derive_playing (self w) t) \<noteq> Some Device_media
       \<and> (responding (self w) \<and> uninterrupted opts (ticks w)
          \<longrightarrow> fst (private_response opts w) \<noteq> Returned Break)"
proof -
  have "steady opts w" if "responding (self w)" "uninterrupted opts (ticks w)"
    using that assms by (simp add: steady_def)
  then have "fst (private_response opts w) \<noteq> Returned Break"
    if "responding (self w)" "uninterrupted opts (ticks w)"
    using that play_no_break [of opts w]
    by (auto simp: private_response_def Let_def split: TTSProvider.splits)
  then show ?thesis
    using assms
    by (auto simp: derive_playing_def interruption_def idle_def split: prod.splits)
qed

theorem C9_witness:
  "fst (private_response native_hi property_world) \<noteq> Returned Break
   \<and> interruption False True (derive_playing (self property_world) stormy_tick)
       \<noteq> Some Device_media"
proof -
  have h: "playingCommand (self property_world) = Some (3, 1, 1)"
    by (simp add: demo_defs)
  have u: "responding (self property_world)" "uninterrupted native_hi (ticks property_world)"
    by (simp_all add: uninterrupted_def call_hasNewMsg_def demo_defs)
  from C9_property_command_hides_media [OF h, of stormy_tick False True native_hi] u
  show ?thesis by blast
qed

subsection \<open>C10: the options object after the call\<close>

text \<open>
  C10: \<^verbatim>\<open>response\<close> writes to the options object of its caller. Where the member
  \<^verbatim>\<open>hasNewMsg\<close> is missing, the object holds the default check after the call, however the
  call ends; every other member, and an object that has the member, is as it was.
\<close>

theorem C10_options_written:
  "options_after (response opts w) =
     (if opt_hasNewMsg opts = None then opts\<lparr>opt_hasNewMsg := Some Default_hasNewMsg\<rparr> else opts)"
  by (auto simp: options_after_def response_def Let_def with_default_check_def
           split: option.splits prod.splits completion.splits)

theorem C10_witness:
  "options_after (response no_options demo_world)
     = no_options\<lparr>opt_hasNewMsg := Some Default_hasNewMsg\<rparr>
   \<and> options_after (response caller_checked demo_world) = caller_checked"
  using C10_options_written [of no_options demo_world]
    C10_options_written [of caller_checked demo_world]
  by (simp add: no_options_def caller_checked_def native_hi_def)

end
